theory Spec2Isabelle
  imports Main "HOL-Library.Monad_Syntax"
begin

section \<open>The platform: ECMAScript time values\<close>

text \<open>
  The picker is written against the JavaScript \<open>Date\<close> object. A \<open>Date\<close> is modelled by
  its time value, the number of milliseconds since 1970-01-01T00:00, as ECMAScript
  defines it (Day, TimeWithinDay, DayFromYear, YearFromTime, MonthFromTime,
  DateFromTime, WeekDay, MakeTime, MakeDay, MakeDate). Local time is UTC, so the local
  getters read the time value directly. An Invalid Date (time value NaN) is not a
  \<open>Date\<close> of the model; where the source tells the two apart (\<open>parseToDate\<close>,
  \<open>toISOString\<close>) the model has a separate case for it.
\<close>

type_synonym Date = int

definition msPerDay :: int where "msPerDay = 86400000"
definition msPerHour :: int where "msPerHour = 3600000"
definition msPerMinute :: int where "msPerMinute = 60000"
definition msPerSecond :: int where "msPerSecond = 1000"

definition Day :: "int \<Rightarrow> int" where
  "Day t = t div msPerDay"

definition TimeWithinDay :: "int \<Rightarrow> int" where
  "TimeWithinDay t = t mod msPerDay"

definition InLeapYear :: "int \<Rightarrow> bool" where
  "InLeapYear y = (y mod 4 = 0 \<and> (y mod 100 \<noteq> 0 \<or> y mod 400 = 0))"

definition leapDays :: "int \<Rightarrow> int" where
  "leapDays y = (if InLeapYear y then 1 else 0)"

definition DaysInYear :: "int \<Rightarrow> int" where
  "DaysInYear y = (if InLeapYear y then 366 else 365)"

definition DayFromYear :: "int \<Rightarrow> int" where
  "DayFromYear y =
     365 * (y - 1970) + (y - 1969) div 4 - (y - 1901) div 100 + (y - 1601) div 400"

text \<open>
  ECMAScript's YearFromTime is the largest year whose first day is not after the given
  day. It is computed here from the estimate \<open>400 * z div 146097\<close> (a 400-year cycle
  has 146097 days), which is off by at most one year; \<open>YearFromDay_bounds\<close> and
  \<open>YearFromDay_unique\<close> below show that the result is that largest year.
\<close>

definition YearFromDay :: "int \<Rightarrow> int" where
  "YearFromDay z =
     (let y0 = 1970 + (400 * z) div 146097
      in if DayFromYear (y0 + 1) \<le> z then y0 + 1
         else if DayFromYear y0 \<le> z then y0
         else y0 - 1)"

definition DayWithinYear :: "int \<Rightarrow> int" where
  "DayWithinYear z = z - DayFromYear (YearFromDay z)"

definition monthStart :: "int \<Rightarrow> int \<Rightarrow> int" where
  "monthStart y m =
     (if m = 0 then 0 else if m = 1 then 31
      else leapDays y +
        (if m = 2 then 59 else if m = 3 then 90 else if m = 4 then 120
         else if m = 5 then 151 else if m = 6 then 181 else if m = 7 then 212
         else if m = 8 then 243 else if m = 9 then 273 else if m = 10 then 304
         else 334))"

definition DaysInMonth :: "int \<Rightarrow> int \<Rightarrow> int" where
  "DaysInMonth y m =
     (if m = 1 then 28 + leapDays y
      else if m = 3 \<or> m = 5 \<or> m = 8 \<or> m = 10 then 30 else 31)"

definition MonthFromDay :: "int \<Rightarrow> int" where
  "MonthFromDay z =
     (let d = DayWithinYear z; l = leapDays (YearFromDay z)
      in if d < 31 then 0 else if d < 59 + l then 1 else if d < 90 + l then 2
         else if d < 120 + l then 3 else if d < 151 + l then 4
         else if d < 181 + l then 5 else if d < 212 + l then 6
         else if d < 243 + l then 7 else if d < 273 + l then 8
         else if d < 304 + l then 9 else if d < 334 + l then 10 else 11)"

definition DateFromDay :: "int \<Rightarrow> int" where
  "DateFromDay z = DayWithinYear z - monthStart (YearFromDay z) (MonthFromDay z) + 1"

definition WeekDay :: "int \<Rightarrow> int" where
  "WeekDay z = (z + 4) mod 7"

definition MakeTime :: "int \<Rightarrow> int \<Rightarrow> int \<Rightarrow> int \<Rightarrow> int" where
  "MakeTime h m s ms = h * msPerHour + m * msPerMinute + s * msPerSecond + ms"

definition MakeDay :: "int \<Rightarrow> int \<Rightarrow> int \<Rightarrow> int" where
  "MakeDay year month date =
     (let ym = year + month div 12; mn = month mod 12
      in DayFromYear ym + monthStart ym mn + date - 1)"

definition MakeDate :: "int \<Rightarrow> int \<Rightarrow> int" where
  "MakeDate day time = day * msPerDay + time"

text \<open>TimeClip: a time value is a valid one when it is within 8.64e15 ms of the epoch.\<close>

definition validTime :: "int \<Rightarrow> bool" where
  "validTime t = (- 8640000000000000 \<le> t \<and> t \<le> 8640000000000000)"

subsection \<open>The methods of Date the picker calls\<close>

definition getTime :: "Date \<Rightarrow> int" where
  "getTime d = d"

definition getFullYear :: "Date \<Rightarrow> int" where
  "getFullYear d = YearFromDay (Day d)"

definition getMonth :: "Date \<Rightarrow> int" where
  "getMonth d = MonthFromDay (Day d)"

definition getDate :: "Date \<Rightarrow> int" where
  "getDate d = DateFromDay (Day d)"

definition getDay :: "Date \<Rightarrow> int" where
  "getDay d = WeekDay (Day d)"

definition getHours :: "Date \<Rightarrow> int" where
  "getHours d = (d div msPerHour) mod 24"

definition getMinutes :: "Date \<Rightarrow> int" where
  "getMinutes d = (d div msPerMinute) mod 60"

definition getSeconds :: "Date \<Rightarrow> int" where
  "getSeconds d = (d div msPerSecond) mod 60"

definition getMilliseconds :: "Date \<Rightarrow> int" where
  "getMilliseconds d = d mod msPerSecond"

text \<open>
  \<open>new Date(year, month, date, hours, minutes)\<close>. The constructor maps a year argument
  from 0 to 99 to 1900 + year; the fields may lie outside their calendar ranges
  (month 12, day 0) and are carried over by MakeDay and MakeTime.
\<close>

definition legacyYear :: "int \<Rightarrow> bool" where
  "legacyYear year = (0 \<le> year \<and> year \<le> 99)"

definition newDate :: "int \<Rightarrow> int \<Rightarrow> int \<Rightarrow> int \<Rightarrow> int \<Rightarrow> Date" where
  "newDate year month date hours minutes =
     (let yr = (if legacyYear year then 1900 + year else year)
      in MakeDate (MakeDay yr month date) (MakeTime hours minutes 0 0))"

definition newDateYMD :: "int \<Rightarrow> int \<Rightarrow> int \<Rightarrow> Date" where
  "newDateYMD year month date = newDate year month date 0 0"

subsection \<open>Date.prototype.toISOString and Date.parse\<close>

datatype jsError = RangeError

definition digit :: "int \<Rightarrow> char" where
  "digit n = char_of (48 + n)"

definition isDigit :: "char \<Rightarrow> bool" where
  "isDigit c = (48 \<le> (of_char c :: int) \<and> (of_char c :: int) \<le> 57)"

definition digitVal :: "char \<Rightarrow> int" where
  "digitVal c = of_char c - 48"

fun digits :: "nat \<Rightarrow> int \<Rightarrow> string" where
  "digits 0 n = []"
| "digits (Suc k) n = digits k (n div 10) @ [digit (n mod 10)]"

definition number :: "string \<Rightarrow> int option" where
  "number s = (if list_all isDigit s then Some (foldl (\<lambda>a c. 10 * a + digitVal c) 0 s) else None)"

definition yearString :: "int \<Rightarrow> string" where
  "yearString y =
     (if 0 \<le> y \<and> y \<le> 9999 then digits 4 y
      else (if y < 0 then CHR ''-'' else CHR ''+'') # digits 6 (abs y))"

text \<open>
  \<open>toISOString\<close> prints the UTC fields as \<open>YYYY-MM-DDTHH:mm:ss.sssZ\<close>, with a sign and
  six digits for a year outside 0..9999, and throws a RangeError on a time value that is
  not a valid one.
\<close>

definition toISOString :: "Date \<Rightarrow> jsError + string" where
  "toISOString d =
     (if \<not> validTime d then Inl RangeError
      else Inr (yearString (getFullYear d) @
        CHR ''-'' # digits 2 (getMonth d + 1) @
        CHR ''-'' # digits 2 (getDate d) @
        CHR ''T'' # digits 2 (getHours d) @
        CHR '':'' # digits 2 (getMinutes d) @
        CHR '':'' # digits 2 (getSeconds d) @
        CHR ''.'' # digits 3 (getMilliseconds d) @ [CHR ''Z'']))"

text \<open>
  \<open>new Date(string)\<close> is Date.parse on the ECMAScript date-time string format
  \<open>YYYY-MM-DDTHH:mm:ss.sssZ\<close>, read from left to right: a four-digit year or a sign and
  six digits (\<open>-000000\<close> is refused); the date-only forms \<open>YYYY\<close>, \<open>YYYY-MM\<close> and
  \<open>YYYY-MM-DD\<close>, a missing month or day being 01; after \<open>T\<close> the time forms \<open>HH:mm\<close>,
  \<open>HH:mm:ss\<close> and \<open>HH:mm:ss.sss\<close>, a missing field being 0; then the offset \<open>Z\<close> or
  \<open>+HH:mm\<close> / \<open>-HH:mm\<close>, or none. Without an offset a date-only form is UTC and a
  date-time form is local time, which is UTC here. A field out of its bounds (month
  01..12, day 01..31, hour 00..24 with 24 only as 24:00:00.000, minute and second
  00..59) gives an Invalid Date (\<open>None\<close>); a day past the end of its month is taken by
  MakeDay into the next month, as V8 does (other engines refuse it). For a string outside
  this format the standard leaves the result to the engine; the model answers \<open>None\<close>,
  as an engine without further formats does.
\<close>

definition takeNumber :: "nat \<Rightarrow> string \<Rightarrow> (int \<times> string) option" where
  "takeNumber k s =
     (if length s < k then None
      else (case number (take k s) of None \<Rightarrow> None | Some n \<Rightarrow> Some (n, drop k s)))"

definition expect :: "char \<Rightarrow> string \<Rightarrow> string option" where
  "expect c s = (case s of [] \<Rightarrow> None | x # xs \<Rightarrow> if x = c then Some xs else None)"

definition parseYear :: "string \<Rightarrow> (int \<times> string) option" where
  "parseYear s =
     (case s of
        [] \<Rightarrow> None
      | c # cs \<Rightarrow>
          if c = CHR ''+'' then takeNumber 6 cs
          else if c = CHR ''-'' then
            (case takeNumber 6 cs of
               None \<Rightarrow> None
             | Some (y, r) \<Rightarrow> if y = 0 then None else Some (- y, r))
          else takeNumber 4 s)"

definition parseDatePart :: "string \<Rightarrow> (int \<times> int \<times> int \<times> string) option" where
  "parseDatePart s =
     do {
       (y, r0) \<leftarrow> parseYear s;
       (case expect (CHR ''-'') r0 of
          None \<Rightarrow> Some (y, 1, 1, r0)
        | Some r1 \<Rightarrow>
            do {
              (mo, r2) \<leftarrow> takeNumber 2 r1;
              (case expect (CHR ''-'') r2 of
                 None \<Rightarrow> Some (y, mo, 1, r2)
               | Some r3 \<Rightarrow>
                   do {
                     (dd, r4) \<leftarrow> takeNumber 2 r3;
                     Some (y, mo, dd, r4)
                   })
            })
     }"

definition parseTimePart :: "string \<Rightarrow> (int \<times> int \<times> int \<times> int \<times> string) option" where
  "parseTimePart s =
     do {
       (hh, r0) \<leftarrow> takeNumber 2 s;
       r1 \<leftarrow> expect (CHR '':'') r0;
       (mi, r2) \<leftarrow> takeNumber 2 r1;
       (case expect (CHR '':'') r2 of
          None \<Rightarrow> Some (hh, mi, 0, 0, r2)
        | Some r3 \<Rightarrow>
            do {
              (ss, r4) \<leftarrow> takeNumber 2 r3;
              (case expect (CHR ''.'') r4 of
                 None \<Rightarrow> Some (hh, mi, ss, 0, r4)
               | Some r5 \<Rightarrow>
                   do {
                     (ms, r6) \<leftarrow> takeNumber 3 r5;
                     Some (hh, mi, ss, ms, r6)
                   })
            })
     }"

text \<open>The offset in minutes east of UTC; the string ends after it.\<close>

definition parseOffset :: "string \<Rightarrow> int option" where
  "parseOffset s =
     (case s of
        [] \<Rightarrow> Some 0
      | c # cs \<Rightarrow>
          if c = CHR ''Z'' then (if cs = [] then Some 0 else None)
          else if c = CHR ''+'' \<or> c = CHR ''-'' then
            do {
              (oh, r1) \<leftarrow> takeNumber 2 cs;
              r2 \<leftarrow> expect (CHR '':'') r1;
              (om, r3) \<leftarrow> takeNumber 2 r2;
              if r3 = [] \<and> oh \<le> 23 \<and> om \<le> 59
              then Some ((if c = CHR ''-'' then - 1 else 1) * (oh * 60 + om))
              else None
            }
          else None)"

definition parseISO :: "string \<Rightarrow> Date option" where
  "parseISO s =
     do {
       (y, mo, dd, r) \<leftarrow> parseDatePart s;
       (hh, mi, ss, ms, off) \<leftarrow>
         (case r of
            [] \<Rightarrow> Some (0, 0, 0, 0, 0)
          | c # cs \<Rightarrow>
              if c = CHR ''T'' then
                do {
                  (hh, mi, ss, ms, r') \<leftarrow> parseTimePart cs;
                  off \<leftarrow> parseOffset r';
                  Some (hh, mi, ss, ms, off)
                }
              else None);
       if 1 \<le> mo \<and> mo \<le> 12 \<and> 1 \<le> dd \<and> dd \<le> 31
          \<and> hh \<le> 24 \<and> mi \<le> 59 \<and> ss \<le> 59
          \<and> (hh < 24 \<or> (mi = 0 \<and> ss = 0 \<and> ms = 0))
       then (let t = MakeDate (MakeDay y (mo - 1) dd) (MakeTime hh mi ss ms) - off * msPerMinute
             in if validTime t then Some t else None)
       else None
     }"

section \<open>NumberUtils (Number.utils.ts)\<close>

definition clamp :: "int \<Rightarrow> int \<Rightarrow> int \<Rightarrow> int" where
  "clamp n lo hi = min (max n lo) hi"

definition range :: "int \<Rightarrow> int list" where
  "range n = map int [0..<nat n]"

section \<open>DateUtils (Date.utils.ts)\<close>

record DateRange =
  range_min :: "Date option"
  range_max :: "Date option"

definition stripTime :: "Date \<Rightarrow> Date" where
  "stripTime d = newDateYMD (getFullYear d) (getMonth d) (getDate d)"

definition isDateInRange :: "Date \<Rightarrow> DateRange option \<Rightarrow> bool \<Rightarrow> bool" where
  "isDateInRange date rng inclusive =
     (case rng of
        None \<Rightarrow> True
      | Some r \<Rightarrow>
          (let t = getTime (stripTime date)
           in if (case range_min r of
                    None \<Rightarrow> False
                  | Some mn \<Rightarrow>
                      (let minT = getTime (stripTime mn)
                       in if inclusive then t < minT else t \<le> minT))
              then False
              else if (case range_max r of
                         None \<Rightarrow> False
                       | Some mx \<Rightarrow>
                           (let maxT = getTime (stripTime mx)
                            in if inclusive then t > maxT else t \<ge> maxT))
              then False
              else True))"

definition isMonthInRange :: "int \<Rightarrow> int \<Rightarrow> DateRange option \<Rightarrow> bool" where
  "isMonthInRange year month0 rng =
     (case rng of
        None \<Rightarrow> True
      | Some r \<Rightarrow>
          if range_min r = None \<and> range_max r = None then True
          else
            (let first = stripTime (newDateYMD year month0 1);
                 last = stripTime (newDateYMD year (month0 + 1) 0);
                 left = (case range_min r of
                           Some mn \<Rightarrow> max (getTime first) (getTime (stripTime mn))
                         | None \<Rightarrow> getTime first);
                 right = (case range_max r of
                            Some mx \<Rightarrow> min (getTime last) (getTime (stripTime mx))
                          | None \<Rightarrow> getTime last)
             in left \<le> right))"

definition isYearInRange :: "int \<Rightarrow> DateRange option \<Rightarrow> bool" where
  "isYearInRange year rng =
     (case rng of
        None \<Rightarrow> True
      | Some r \<Rightarrow>
          if range_min r = None \<and> range_max r = None then True
          else
            (let first = stripTime (newDateYMD year 0 1);
                 last = stripTime (newDateYMD (year + 1) 0 0);
                 left = (case range_min r of
                           Some mn \<Rightarrow> max (getTime first) (getTime (stripTime mn))
                         | None \<Rightarrow> getTime first);
                 right = (case range_max r of
                            Some mx \<Rightarrow> min (getTime last) (getTime (stripTime mx))
                          | None \<Rightarrow> getTime last)
             in left \<le> right))"

text \<open>\<open>getYearRange\<close> with the default spread of 50; \<open>now\<close> is the clock it reads.\<close>

definition getYearRange :: "Date \<Rightarrow> DateRange option \<Rightarrow> int \<times> int" where
  "getYearRange now rng =
     (let spread = 50;
          mn = (case rng of None \<Rightarrow> None | Some r \<Rightarrow> range_min r);
          mx = (case rng of None \<Rightarrow> None | Some r \<Rightarrow> range_max r)
      in case (mn, mx) of
           (Some a, Some b) \<Rightarrow> (getFullYear a, getFullYear b)
         | (Some a, None) \<Rightarrow> (getFullYear a, getFullYear a + spread)
         | (None, Some b) \<Rightarrow> (getFullYear b - spread, getFullYear b)
         | (None, None) \<Rightarrow> (getFullYear now - spread, getFullYear now + spread))"

definition isDayDisabled ::
  "Date \<Rightarrow> DateRange option \<Rightarrow> (Date \<Rightarrow> bool) option \<Rightarrow> bool" where
  "isDayDisabled date rng disabledDates =
     (if (case disabledDates of None \<Rightarrow> False | Some p \<Rightarrow> p date) then True
      else \<not> isDateInRange date rng True)"

definition startOfMonth :: "Date \<Rightarrow> Date" where
  "startOfMonth d = newDateYMD (getFullYear d) (getMonth d) 1"

definition endOfMonth :: "Date \<Rightarrow> Date" where
  "endOfMonth d = newDateYMD (getFullYear d) (getMonth d + 1) 0"

definition addMonths :: "Date \<Rightarrow> int \<Rightarrow> Date" where
  "addMonths d delta = newDateYMD (getFullYear d) (getMonth d + delta) 1"

section \<open>The date-time picker (RHFDateTimePicker.tsx)\<close>

subsection \<open>Helpers outside the component\<close>

datatype ValueAs = ValueIso | ValueDate

datatype ViewMode = ViewDate | ViewMonthYear

text \<open>
  What \<open>field.value\<close> can hold: nothing (undefined, null or another falsy value), a
  Date, an Invalid Date, a string, or a value of another type.
\<close>

datatype FieldValue = VUndefined | VDate Date | VInvalidDate | VString string | VOther

definition parseToDate :: "FieldValue \<Rightarrow> Date option" where
  "parseToDate v =
     (case v of
        VUndefined \<Rightarrow> None
      | VDate d \<Rightarrow> Some d
      | VInvalidDate \<Rightarrow> None
      | VString s \<Rightarrow> (if s = [] then None else parseISO s)
      | VOther \<Rightarrow> None)"

definition weekdayIndexMonFirst :: "int \<Rightarrow> int" where
  "weekdayIndexMonFirst jsDay = (if jsDay = 0 then 6 else jsDay - 1)"

text \<open>The last loop of \<open>buildDaysGrid\<close>: push empty cells until the length is a multiple of 7.\<close>

function padToWeeks :: "int option list \<Rightarrow> int option list" where
  "padToWeeks out = (if length out mod 7 \<noteq> 0 then padToWeeks (out @ [None]) else out)"
  by pat_completeness auto
termination
  by (relation "measure (\<lambda>out. 6 - (length out + 6) mod 7)") (auto, presburger)

definition buildDaysGrid :: "Date \<Rightarrow> int option list" where
  "buildDaysGrid base =
     (let first = startOfMonth base;
          daysInMonth = getDate (endOfMonth base);
          startOffset = weekdayIndexMonFirst (getDay first)
      in padToWeeks (replicate (nat startOffset) None @ map Some [1..daysInMonth]))"

subsection \<open>Props and state of the component\<close>

record Props =
  minDate :: "Date option"
  maxDate :: "Date option"
  disabledDates :: "(Date \<Rightarrow> bool) option"
  minuteStep :: int
  valueAs :: ValueAs
  requireTime :: bool
  disabled :: bool
  withClearButton :: bool

text \<open>
  The component's \<open>useState\<close> cells and the form's \<open>field.value\<close>. \<open>fieldRef\<close> stands for
  the identity of the object held in \<open>field.value\<close>: React compares the dependencies of
  \<open>useMemo\<close> and \<open>useEffect\<close> with \<open>Object.is\<close>, and a commit of a Date stores a new
  object every time.
\<close>

record PickerState =
  fieldValue :: FieldValue
  fieldRef :: nat
  isOpen :: bool
  view :: ViewMode
  displayDate :: Date
  draft :: Date
  pickedDate :: bool
  pickedTime :: bool
  hourTouched :: bool
  minuteTouched :: bool

record LowerBound =
  minHour :: int
  minMinuteStepAligned :: int

definition selected :: "PickerState \<Rightarrow> Date option" where
  "selected s = parseToDate (fieldValue s)"

definition rangeObj :: "Props \<Rightarrow> DateRange" where
  "rangeObj P = \<lparr>range_min = minDate P, range_max = maxDate P\<rparr>"

text \<open>
  The seed both the open effect and \<open>resetFromSelected\<close> compute: the committed value,
  else the later of the clock and \<open>minDate\<close>, else the clock; and the draft made of it,
  with the minute floored to the step.
\<close>

definition seedBase :: "Props \<Rightarrow> Date \<Rightarrow> Date option \<Rightarrow> Date" where
  "seedBase P now sel =
     (case sel of
        Some d \<Rightarrow> d
      | None \<Rightarrow> (case minDate P of Some mn \<Rightarrow> max now (getTime mn) | None \<Rightarrow> now))"

definition normalized :: "Props \<Rightarrow> Date \<Rightarrow> Date" where
  "normalized P base =
     newDate (getFullYear base) (getMonth base) (getDate base) (getHours base)
       ((getMinutes base div minuteStep P) * minuteStep P)"

definition openEffect :: "Props \<Rightarrow> Date \<Rightarrow> PickerState \<Rightarrow> PickerState" where
  "openEffect P now s =
     (if \<not> isOpen s then s
      else
        (let base = seedBase P now (selected s);
             has = (selected s \<noteq> None)
         in s\<lparr>displayDate := startOfMonth base, draft := normalized P base,
              pickedDate := has, pickedTime := has,
              hourTouched := has, minuteTouched := has\<rparr>))"

definition canNavigatePrev :: "Props \<Rightarrow> PickerState \<Rightarrow> bool" where
  "canNavigatePrev P s =
     (case minDate P of
        None \<Rightarrow> True
      | Some mn \<Rightarrow> endOfMonth (addMonths (displayDate s) (- 1)) \<ge> stripTime mn)"

definition canNavigateNext :: "Props \<Rightarrow> PickerState \<Rightarrow> bool" where
  "canNavigateNext P s =
     (case maxDate P of
        None \<Rightarrow> True
      | Some mx \<Rightarrow> startOfMonth (addMonths (displayDate s) 1) \<le> stripTime mx)"

definition toggleView :: "PickerState \<Rightarrow> PickerState" where
  "toggleView s = s\<lparr>view := (if view s = ViewDate then ViewMonthYear else ViewDate)\<rparr>"

subsection \<open>Commit\<close>

text \<open>
  \<open>field.onChange\<close>: the new value is stored; the stored object changes identity unless
  the new value is the same primitive (the same string, or undefined again).
\<close>

definition onChange :: "FieldValue \<Rightarrow> PickerState \<Rightarrow> PickerState" where
  "onChange v s =
     s\<lparr>fieldValue := v,
       fieldRef := (if v = fieldValue s \<and> (case v of VDate _ \<Rightarrow> False | _ \<Rightarrow> True)
                    then fieldRef s else Suc (fieldRef s))\<rparr>"

definition commit :: "Props \<Rightarrow> Date option \<Rightarrow> PickerState \<Rightarrow> jsError + PickerState" where
  "commit P d s =
     (case d of
        None \<Rightarrow> Inr (onChange VUndefined s)
      | Some x \<Rightarrow>
          if \<not> isDateInRange x (Some (rangeObj P)) True then Inr s
          else
            (case valueAs P of
               ValueIso \<Rightarrow>
                 (case toISOString x of
                    Inl e \<Rightarrow> Inl e
                  | Inr str \<Rightarrow> Inr (onChange (VString str) s))
             | ValueDate \<Rightarrow> Inr (onChange (VDate x) s)))"

definition commitIfComplete ::
  "Props \<Rightarrow> Date \<Rightarrow> bool \<times> bool \<Rightarrow> PickerState \<Rightarrow> jsError + PickerState" where
  "commitIfComplete P next nextPicked s =
     (if \<not> requireTime P \<or> (fst nextPicked \<and> snd nextPicked) then commit P (Some next) s
      else Inr s)"

definition clear :: "Props \<Rightarrow> PickerState \<Rightarrow> jsError + PickerState" where
  "clear P s = commit P None s"

subsection \<open>Availability\<close>

definition isDayDisabledP :: "Props \<Rightarrow> Date \<Rightarrow> bool" where
  "isDayDisabledP P date = isDayDisabled date (Some (rangeObj P)) (disabledDates P)"

definition isMonthDisabled :: "Props \<Rightarrow> int \<Rightarrow> int \<Rightarrow> bool" where
  "isMonthDisabled P y m0 =
     (let first = newDateYMD y m0 1;
          last = newDateYMD y (m0 + 1) 0
      in if (case minDate P of None \<Rightarrow> False | Some mn \<Rightarrow> stripTime last < stripTime mn)
         then True
         else if (case maxDate P of None \<Rightarrow> False | Some mx \<Rightarrow> stripTime first > stripTime mx)
         then True
         else False)"

definition isDateTimeDisabled :: "Props \<Rightarrow> Date \<Rightarrow> bool" where
  "isDateTimeDisabled P dt = (if \<not> isDateInRange dt (Some (rangeObj P)) True then True else False)"

definition isSameDay :: "Date \<Rightarrow> Date \<Rightarrow> bool" where
  "isSameDay a b =
     (getFullYear a = getFullYear b \<and> getMonth a = getMonth b \<and> getDate a = getDate b)"

text \<open>\<open>Math.ceil(minute / step)\<close> on integers, for a positive step.\<close>

definition ceilDiv :: "int \<Rightarrow> int \<Rightarrow> int" where
  "ceilDiv a b = - ((- a) div b)"

definition roundUpToStep :: "int \<Rightarrow> int \<Rightarrow> int" where
  "roundUpToStep minute step = min 59 (ceilDiv minute step * step)"

definition getLowerBoundForDraft :: "Props \<Rightarrow> PickerState \<Rightarrow> LowerBound option" where
  "getLowerBoundForDraft P s =
     (case minDate P of
        None \<Rightarrow> None
      | Some mn \<Rightarrow>
          if \<not> isSameDay (draft s) mn then None
          else Some \<lparr>minHour = getHours mn,
                     minMinuteStepAligned = roundUpToStep (getMinutes mn) (minuteStep P)\<rparr>)"

text \<open>
  The two loops of \<open>isHourCompletelyDisabled\<close> over \<open>i = 0 .. floor(60 / minuteStep) - 1\<close>:
  the result is \<open>False\<close> as soon as a minute of the hour is available (the loop returns),
  and \<open>True\<close> when the loop runs out. The first loop skips the minutes below the aligned
  floor.
\<close>

fun minuteLoopFrom :: "Props \<Rightarrow> PickerState \<Rightarrow> int \<Rightarrow> int \<Rightarrow> int list \<Rightarrow> bool" where
  "minuteLoopFrom P s hour aligned [] = True"
| "minuteLoopFrom P s hour aligned (i # rest) =
     (let m = i * minuteStep P
      in if m < aligned then minuteLoopFrom P s hour aligned rest
         else if \<not> isDateTimeDisabled P
                   (newDate (getFullYear (draft s)) (getMonth (draft s)) (getDate (draft s)) hour m)
         then False
         else minuteLoopFrom P s hour aligned rest)"

fun minuteLoop :: "Props \<Rightarrow> PickerState \<Rightarrow> int \<Rightarrow> int list \<Rightarrow> bool" where
  "minuteLoop P s hour [] = True"
| "minuteLoop P s hour (i # rest) =
     (let m = i * minuteStep P
      in if \<not> isDateTimeDisabled P
              (newDate (getFullYear (draft s)) (getMonth (draft s)) (getDate (draft s)) hour m)
         then False
         else minuteLoop P s hour rest)"

definition isHourCompletelyDisabled :: "Props \<Rightarrow> PickerState \<Rightarrow> int \<Rightarrow> bool" where
  "isHourCompletelyDisabled P s hour =
     (case getLowerBoundForDraft P s of
        Some lower \<Rightarrow>
          if hour < minHour lower then True
          else if hour = minHour lower then
            (if minMinuteStepAligned lower > 59 then True
             else minuteLoopFrom P s hour (minMinuteStepAligned lower)
                    (range (60 div minuteStep P)))
          else minuteLoop P s hour (range (60 div minuteStep P))
      | None \<Rightarrow> minuteLoop P s hour (range (60 div minuteStep P)))"

definition isMinuteDisabled :: "Props \<Rightarrow> PickerState \<Rightarrow> int \<Rightarrow> bool" where
  "isMinuteDisabled P s minute =
     (if (case getLowerBoundForDraft P s of
            None \<Rightarrow> False
          | Some lower \<Rightarrow>
              getHours (draft s) = minHour lower \<and> minute < minMinuteStepAligned lower)
      then True
      else isDateTimeDisabled P
             (newDate (getFullYear (draft s)) (getMonth (draft s)) (getDate (draft s))
                (getHours (draft s)) minute))"

subsection \<open>Handlers\<close>

definition handleDateSelect :: "int \<Rightarrow> PickerState \<Rightarrow> PickerState" where
  "handleDateSelect dayNum s =
     (let vis = newDate (getFullYear (displayDate s)) (getMonth (displayDate s))
                  (clamp dayNum 1 31) 0 0
      in s\<lparr>displayDate := startOfMonth vis, draft := vis,
           pickedDate := True, pickedTime := False,
           hourTouched := False, minuteTouched := False\<rparr>)"

definition setHour :: "Props \<Rightarrow> int \<Rightarrow> PickerState \<Rightarrow> PickerState" where
  "setHour P hour s =
     (let prev = draft s;
          h = clamp hour 0 23;
          next = newDate (getFullYear prev) (getMonth prev) (getDate prev) h 0
      in if isDateTimeDisabled P next then s
         else s\<lparr>draft := next, pickedDate := True, pickedTime := False,
                hourTouched := True, minuteTouched := False\<rparr>)"

definition setMinute :: "Props \<Rightarrow> int \<Rightarrow> PickerState \<Rightarrow> jsError + PickerState" where
  "setMinute P minute s =
     (let prev = draft s;
          m = clamp minute 0 59;
          next = newDate (getFullYear prev) (getMonth prev) (getDate prev) (getHours prev) m
      in if isDateTimeDisabled P next then Inr s
         else commitIfComplete P next (True, True)
                (s\<lparr>draft := next, pickedDate := True, pickedTime := True,
                   minuteTouched := True\<rparr>))"

definition handleMonthChange :: "Props \<Rightarrow> int \<Rightarrow> PickerState \<Rightarrow> PickerState" where
  "handleMonthChange P m0 s =
     (if isMonthDisabled P (getFullYear (displayDate s)) m0 then s
      else
        (let next = newDateYMD (getFullYear (displayDate s)) m0 1;
             prev = draft s
         in s\<lparr>displayDate := startOfMonth next,
              draft := newDate (getFullYear next) (getMonth next) (getDate prev)
                         (getHours prev) (getMinutes prev),
              view := ViewDate\<rparr>))"

definition handleYearChange :: "int \<Rightarrow> PickerState \<Rightarrow> PickerState" where
  "handleYearChange year s =
     (let next = newDateYMD year (getMonth (displayDate s)) 1;
          prev = draft s
      in s\<lparr>displayDate := startOfMonth next,
           draft := newDate (getFullYear next) (getMonth next) (getDate prev)
                      (getHours prev) (getMinutes prev)\<rparr>)"

definition navigateMonth :: "int \<Rightarrow> PickerState \<Rightarrow> PickerState" where
  "navigateMonth dir s = s\<lparr>displayDate := addMonths (displayDate s) dir\<rparr>"

definition resetFromSelected :: "Props \<Rightarrow> Date \<Rightarrow> PickerState \<Rightarrow> PickerState" where
  "resetFromSelected P now s =
     (let base = seedBase P now (selected s);
          has = (selected s \<noteq> None)
      in s\<lparr>displayDate := startOfMonth base, draft := normalized P base,
           pickedDate := has, pickedTime := has\<rparr>)"

definition onOpenChange :: "Props \<Rightarrow> Date \<Rightarrow> bool \<Rightarrow> PickerState \<Rightarrow> PickerState" where
  "onOpenChange P now nextOpen s =
     (let s1 = (if \<not> nextOpen \<and> (requireTime P \<and> pickedDate s \<and> \<not> pickedTime s)
                then resetFromSelected P now s else s)
      in s1\<lparr>isOpen := nextOpen\<rparr>)"

subsection \<open>Rendering and events\<close>

text \<open>
  After a handler has run the component renders again, and the open effect runs when
  the picker is open and one of its dependencies changed: the \<open>open\<close> flag, or the
  memoized \<open>selected\<close>, which is a new object whenever \<open>field.value\<close> changed identity
  and is not \<open>null\<close> both before and after.
\<close>

definition selectedChanged :: "PickerState \<Rightarrow> PickerState \<Rightarrow> bool" where
  "selectedChanged s s' =
     (fieldRef s' \<noteq> fieldRef s \<and> \<not> (selected s = None \<and> selected s' = None))"

definition afterRender :: "Props \<Rightarrow> Date \<Rightarrow> PickerState \<Rightarrow> PickerState \<Rightarrow> PickerState" where
  "afterRender P now s s' =
     (if isOpen s' \<noteq> isOpen s \<or> selectedChanged s s' then openEffect P now s' else s')"

text \<open>
  The user's actions, each with the condition under which the rendered element exists
  and passes the click on (the \<open>onClick\<close> guards of the JSX and of \<open>GridItem\<close>, the
  \<open>disabled\<close> attributes of the buttons, the popover content being rendered only while
  the popover is open).
\<close>

datatype Event =
    OpenChange bool
  | DayClick int
  | HourClick int
  | MinuteClick int
  | PrevClick
  | NextClick
  | ViewClick
  | YearClick int
  | MonthClick int
  | ClearClick

definition yearOptions :: "Props \<Rightarrow> Date \<Rightarrow> int list" where
  "yearOptions P now =
     (let yr = getYearRange now (Some (rangeObj P))
      in filter (\<lambda>y. isYearInRange y (Some (rangeObj P)))
           (map (\<lambda>i. fst yr + i) (range (snd yr - fst yr + 1))))"

definition monthOptions :: "Props \<Rightarrow> PickerState \<Rightarrow> int list" where
  "monthOptions P s =
     filter (\<lambda>m0. isMonthInRange (getFullYear (displayDate s)) m0 (Some (rangeObj P))) (range 12)"

definition minuteOptions :: "Props \<Rightarrow> int list" where
  "minuteOptions P = map (\<lambda>i. i * minuteStep P) (range (60 div minuteStep P))"

definition enabled :: "Props \<Rightarrow> Date \<Rightarrow> PickerState \<Rightarrow> Event \<Rightarrow> bool" where
  "enabled P now s e =
     (case e of
        OpenChange b \<Rightarrow> b \<noteq> isOpen s \<and> (if b then \<not> disabled P else True)
      | DayClick d \<Rightarrow>
          isOpen s \<and> view s = ViewDate \<and> List.member (buildDaysGrid (displayDate s)) (Some d)
          \<and> \<not> isDayDisabledP P
                (newDateYMD (getFullYear (displayDate s)) (getMonth (displayDate s)) d)
      | HourClick h \<Rightarrow>
          isOpen s \<and> List.member (range 24) h \<and> \<not> isHourCompletelyDisabled P s h
      | MinuteClick m \<Rightarrow>
          isOpen s \<and> List.member (minuteOptions P) m \<and> \<not> isMinuteDisabled P s m
      | PrevClick \<Rightarrow> isOpen s \<and> view s = ViewDate \<and> canNavigatePrev P s
      | NextClick \<Rightarrow> isOpen s \<and> view s = ViewDate \<and> canNavigateNext P s
      | ViewClick \<Rightarrow> isOpen s
      | YearClick y \<Rightarrow>
          isOpen s \<and> view s = ViewMonthYear \<and> List.member (yearOptions P now) y
      | MonthClick m0 \<Rightarrow>
          isOpen s \<and> view s = ViewMonthYear \<and> List.member (monthOptions P s) m0
          \<and> \<not> isMonthDisabled P (getFullYear (displayDate s)) m0
      | ClearClick \<Rightarrow> withClearButton P \<and> selected s \<noteq> None \<and> \<not> disabled P)"

definition handle :: "Props \<Rightarrow> Date \<Rightarrow> Event \<Rightarrow> PickerState \<Rightarrow> jsError + PickerState" where
  "handle P now e s =
     (case e of
        OpenChange b \<Rightarrow> Inr (onOpenChange P now b s)
      | DayClick d \<Rightarrow> Inr (handleDateSelect d s)
      | HourClick h \<Rightarrow> Inr (setHour P h s)
      | MinuteClick m \<Rightarrow> setMinute P m s
      | PrevClick \<Rightarrow> Inr (navigateMonth (- 1) s)
      | NextClick \<Rightarrow> Inr (navigateMonth 1 s)
      | ViewClick \<Rightarrow> Inr (toggleView s)
      | YearClick y \<Rightarrow> Inr (handleYearChange y s)
      | MonthClick m0 \<Rightarrow> Inr (handleMonthChange P m0 s)
      | ClearClick \<Rightarrow> clear P s)"

text \<open>
  One step of the machine: a click on an element that is not there or is disabled does
  nothing; an exception thrown by a handler ends the run. \<open>now\<close> is what the clock reads
  during the step.
\<close>

definition step :: "Props \<Rightarrow> Date \<Rightarrow> Event \<Rightarrow> PickerState \<Rightarrow> jsError + PickerState" where
  "step P now e s =
     (if \<not> enabled P now s e then Inr s
      else (case handle P now e s of
              Inl err \<Rightarrow> Inl err
            | Inr s' \<Rightarrow> Inr (afterRender P now s s')))"

fun run :: "Props \<Rightarrow> (Date \<times> Event) list \<Rightarrow> PickerState \<Rightarrow> jsError + PickerState" where
  "run P [] s = Inr s"
| "run P ((now, e) # es) s =
     (case step P now e s of
        Inl err \<Rightarrow> Inl err
      | Inr s' \<Rightarrow> run P es s')"

subsection \<open>The claim's own notions\<close>

text \<open>
  The range check as the specification words it for \<open>dateOnly = false\<close>: the instant
  itself lies between the bounds, both inclusive, an absent bound not limiting.
\<close>

definition allowsFullInstant :: "Date \<Rightarrow> DateRange \<Rightarrow> bool" where
  "allowsFullInstant x r =
     ((case range_min r of None \<Rightarrow> True | Some mn \<Rightarrow> mn \<le> x)
      \<and> (case range_max r of None \<Rightarrow> True | Some mx \<Rightarrow> x \<le> mx))"

text \<open>
  What the specification lets a pick of an hour change: the hour of the draft and the
  minute-chosen flag (here both \<open>picked.time\<close> and \<open>minuteTouched\<close>), everything else,
  the draft's date and minute included, staying as it was.
\<close>

definition onlyHourAndMinuteFlag :: "PickerState \<Rightarrow> PickerState \<Rightarrow> bool" where
  "onlyHourAndMinuteFlag s s' =
     (s' = s\<lparr>draft := draft s', pickedTime := pickedTime s', minuteTouched := minuteTouched s'\<rparr>
      \<and> getFullYear (draft s') = getFullYear (draft s)
      \<and> getMonth (draft s') = getMonth (draft s)
      \<and> getDate (draft s') = getDate (draft s)
      \<and> getMinutes (draft s') = getMinutes (draft s))"

text \<open>
  A day (counted from the epoch) lies within the range when the bounds are taken at
  their dates: not before the day of \<open>min\<close>, not after the day of \<open>max\<close>.
\<close>

definition dayInRange :: "DateRange \<Rightarrow> int \<Rightarrow> bool" where
  "dayInRange r z =
     ((case range_min r of None \<Rightarrow> True | Some mn \<Rightarrow> Day mn \<le> z)
      \<and> (case range_max r of None \<Rightarrow> True | Some mx \<Rightarrow> z \<le> Day mx))"

text \<open>
  Dates whose year the constructor takes as it is (a year from 0 to 99 is read as
  1900 + year when a Date is rebuilt from its fields).
\<close>

definition plainDate :: "Date \<Rightarrow> bool" where
  "plainDate d = (\<not> legacyYear (getFullYear d))"

definition plainRange :: "DateRange \<Rightarrow> bool" where
  "plainRange r =
     ((case range_min r of None \<Rightarrow> True | Some mn \<Rightarrow> plainDate mn)
      \<and> (case range_max r of None \<Rightarrow> True | Some mx \<Rightarrow> plainDate mx))"

text \<open>
  The step grid of the specification, \<open>{0, s, 2s, ...}\<close> within 0..59, and the minutes of
  it that \<open>isMinuteDisabled\<close> leaves selectable, in increasing order.
\<close>

definition stepGrid :: "int \<Rightarrow> int list" where
  "stepGrid st = map (\<lambda>i. i * st) [0..59 div st]"

definition selectableMinutes :: "Props \<Rightarrow> PickerState \<Rightarrow> int list" where
  "selectableMinutes P s = filter (\<lambda>m. \<not> isMinuteDisabled P s m) (stepGrid (minuteStep P))"

text \<open>
  The smallest selectable minute of the step grid, when there is one (the grid is in
  increasing order).
\<close>

definition leastSelectable :: "Props \<Rightarrow> PickerState \<Rightarrow> int option" where
  "leastSelectable P s = (case selectableMinutes P s of [] \<Rightarrow> None | g # rest \<Rightarrow> Some g)"


subsection \<open>A configuration to evaluate on\<close>

text \<open>
  The scenario of the specification: the range from 2024-01-10 09:07 to 2024-01-20, a
  step of 15 minutes, no committed value, and a clock that reads 2024-01-02 12:00.
\<close>

definition exampleProps :: Props where
  "exampleProps =
     \<lparr>minDate = Some (newDate 2024 0 10 9 7), maxDate = Some (newDate 2024 0 20 0 0),
      disabledDates = None, minuteStep = 15, valueAs = ValueDate, requireTime = True,
      disabled = False, withClearButton = True\<rparr>"

definition exampleNow :: Date where
  "exampleNow = newDate 2024 0 2 12 0"

definition exampleClosed :: PickerState where
  "exampleClosed =
     \<lparr>fieldValue = VUndefined, fieldRef = 0, isOpen = False, view = ViewDate,
      displayDate = exampleNow, draft = exampleNow,
      pickedDate = False, pickedTime = False, hourTouched = False, minuteTouched = False\<rparr>"

text \<open>The picker just opened on that scenario: the draft is seeded at 2024-01-10 09:00.\<close>

definition exampleOpened :: PickerState where
  "exampleOpened =
     \<lparr>fieldValue = VUndefined, fieldRef = 0, isOpen = True, view = ViewDate,
      displayDate = newDate 2024 0 1 0 0, draft = newDate 2024 0 10 9 0,
      pickedDate = False, pickedTime = False, hourTouched = False, minuteTouched = False\<rparr>"

definition exampleHourPicked :: PickerState where
  "exampleHourPicked =
     \<lparr>fieldValue = VUndefined, fieldRef = 0, isOpen = True, view = ViewDate,
      displayDate = newDate 2024 0 1 0 0, draft = newDate 2024 0 15 10 0,
      pickedDate = True, pickedTime = False, hourTouched = True, minuteTouched = False\<rparr>"

definition exampleCommitted :: PickerState where
  "exampleCommitted =
     exampleHourPicked\<lparr>fieldValue := VDate (newDate 2024 0 15 10 30), fieldRef := 1,
       draft := newDate 2024 0 15 10 30, pickedTime := True, minuteTouched := True\<rparr>"

text \<open>A minimum at 09:58 with a step of 5, and a draft on that day at 09:00.\<close>

definition lateMinProps :: Props where
  "lateMinProps = exampleProps\<lparr>minDate := Some (newDate 2024 0 10 9 58), minuteStep := 5\<rparr>"

definition lateMinDraft :: PickerState where
  "lateMinDraft = exampleHourPicked\<lparr>draft := newDate 2024 0 10 9 0\<rparr>"

section \<open>The calendar of the platform model\<close>

lemma div_bounds:
  fixes a k :: int
  assumes "0 < k"
  shows "k * (a div k) \<le> a" and "a < k * (a div k) + k"
proof -
  have "a = k * (a div k) + a mod k" by simp
  moreover have "0 \<le> a mod k" "a mod k < k" using assms by simp_all
  ultimately show "k * (a div k) \<le> a" and "a < k * (a div k) + k" by linarith+
qed

lemma div_succ:
  fixes a k :: int
  assumes "0 < k"
  shows "(a + 1) div k = (if (a + 1) mod k = 0 then a div k + 1 else a div k)"
proof -
  define q where "q = (a + 1) div k"
  define r where "r = (a + 1) mod k"
  have e: "a + 1 = k * q + r" by (simp add: q_def r_def)
  have r: "0 \<le> r" "r < k" using assms by (simp_all add: r_def)
  show ?thesis
  proof (cases "r = 0")
    case True
    have "a = k * (q - 1) + (k - 1)" using e True by (simp add: algebra_simps)
    then have "a div k = q - 1" using assms int_div_pos_eq[of a k "q - 1" "k - 1"] by simp
    then show ?thesis using True by (simp add: q_def[symmetric] r_def[symmetric])
  next
    case False
    have "a = k * q + (r - 1)" using e by simp
    then have "a div k = q" using assms r False int_div_pos_eq[of a k q "r - 1"] by simp
    then show ?thesis using False by (simp add: q_def[symmetric] r_def[symmetric])
  qed
qed

lemma DayFromYear_bounds:
  "400 * DayFromYear y \<le> 146097 * (y - 1970) + 593"
  "146097 * (y - 1970) - 607 \<le> 400 * DayFromYear y"
proof -
  define a where "a = (y - 1969) div 4"
  define b where "b = (y - 1901) div 100"
  define c where "c = (y - 1601) div 400"
  have a: "4 * a \<le> y - 1969" "y - 1969 < 4 * a + 4"
    unfolding a_def by (rule div_bounds; simp)+
  have b: "100 * b \<le> y - 1901" "y - 1901 < 100 * b + 100"
    unfolding b_def by (rule div_bounds; simp)+
  have c: "400 * c \<le> y - 1601" "y - 1601 < 400 * c + 400"
    unfolding c_def by (rule div_bounds; simp)+
  have eq: "DayFromYear y = 365 * (y - 1970) + a - b + c"
    by (simp add: DayFromYear_def a_def b_def c_def)
  show "400 * DayFromYear y \<le> 146097 * (y - 1970) + 593"
    unfolding eq using a b c by (simp add: algebra_simps)
  show "146097 * (y - 1970) - 607 \<le> 400 * DayFromYear y"
    unfolding eq using a b c by (simp add: algebra_simps)
qed

lemma mod_shift:
  "(y - 1968) mod 4 = y mod (4::int)"
  "(y - 1900) mod 100 = y mod (100::int)"
  "(y - 1600) mod 400 = y mod (400::int)"
  using mod_mult_self1[of y "-492" 4] mod_mult_self1[of y "-19" 100]
    mod_mult_self1[of y "-4" 400] by simp_all

lemma leapDays_cases: "leapDays y = 0 \<or> leapDays y = 1"
  by (simp add: leapDays_def)

lemma DaysInYear_leapDays: "DaysInYear y = 365 + leapDays y"
  by (simp add: DaysInYear_def leapDays_def)

lemma DayFromYear_Suc: "DayFromYear (y + 1) = DayFromYear y + DaysInYear y"
proof -
  have d4: "(y + 1 - 1969) div 4 =
      (if y mod 4 = 0 then (y - 1969) div 4 + 1 else (y - 1969) div 4)"
    using div_succ[of 4 "y - 1969"] mod_shift(1)[of y] by (simp add: algebra_simps)
  have d100: "(y + 1 - 1901) div 100 =
      (if y mod 100 = 0 then (y - 1901) div 100 + 1 else (y - 1901) div 100)"
    using div_succ[of 100 "y - 1901"] mod_shift(2)[of y] by (simp add: algebra_simps)
  have d400: "(y + 1 - 1601) div 400 =
      (if y mod 400 = 0 then (y - 1601) div 400 + 1 else (y - 1601) div 400)"
    using div_succ[of 400 "y - 1601"] mod_shift(3)[of y] by (simp add: algebra_simps)
  have i1: "y mod 400 = 0 \<Longrightarrow> y mod 100 = 0"
    using mod_mod_cancel[of 100 400 y] by simp
  have i2: "y mod 100 = 0 \<Longrightarrow> y mod 4 = 0"
    using mod_mod_cancel[of 4 100 y] by simp
  show ?thesis
    unfolding DayFromYear_def DaysInYear_def InLeapYear_def d4 d100 d400
    using i1 i2 by auto
qed

lemma DayFromYear_strict_mono: "y < y' \<Longrightarrow> DayFromYear y < DayFromYear y'"
proof -
  assume "y < y'"
  then have "146097 * (y - 1970) + 593 < 146097 * (y' - 1970) - 607" by simp
  then have "400 * DayFromYear y < 400 * DayFromYear y'"
    using DayFromYear_bounds(1)[of y] DayFromYear_bounds(2)[of y'] by linarith
  then show ?thesis by simp
qed

lemma DayFromYear_mono: "y \<le> y' \<Longrightarrow> DayFromYear y \<le> DayFromYear y'"
  using DayFromYear_strict_mono[of y y'] by (cases "y = y'") auto

lemma YearFromDay_bounds:
  "DayFromYear (YearFromDay z) \<le> z" "z < DayFromYear (YearFromDay z + 1)"
proof -
  define q where "q = (400 * z) div 146097"
  have q: "146097 * q \<le> 400 * z" "400 * z < 146097 * q + 146097"
    unfolding q_def by (rule div_bounds; simp)+
  have lo: "DayFromYear (1970 + q - 1) \<le> z"
  proof -
    have "400 * DayFromYear (1970 + q - 1) \<le> 146097 * (q - 1) + 593"
      using DayFromYear_bounds(1)[of "1970 + q - 1"] by simp
    also have "\<dots> \<le> 400 * z" using q by simp
    finally show ?thesis by simp
  qed
  have hi: "z < DayFromYear (1970 + q + 2)"
  proof -
    have "400 * z < 146097 * (q + 2) - 607" using q by simp
    also have "\<dots> \<le> 400 * DayFromYear (1970 + q + 2)"
      using DayFromYear_bounds(2)[of "1970 + q + 2"] by simp
    finally show ?thesis by simp
  qed
  have e: "YearFromDay z =
     (if DayFromYear (1970 + q + 1) \<le> z then 1970 + q + 1
      else if DayFromYear (1970 + q) \<le> z then 1970 + q else 1970 + q - 1)"
    by (simp add: YearFromDay_def q_def Let_def)
  show "DayFromYear (YearFromDay z) \<le> z" unfolding e using lo by simp
  show "z < DayFromYear (YearFromDay z + 1)" unfolding e using hi
    by (simp add: algebra_simps)
qed

lemma YearFromDay_unique:
  assumes "DayFromYear y \<le> z" "z < DayFromYear (y + 1)"
  shows "YearFromDay z = y"
proof (rule ccontr)
  assume ne: "YearFromDay z \<noteq> y"
  show False
  proof (cases "YearFromDay z < y")
    case True
    then have "DayFromYear (YearFromDay z + 1) \<le> DayFromYear y"
      by (intro DayFromYear_mono) simp
    then show False using YearFromDay_bounds(2)[of z] assms(1) by simp
  next
    case False
    then have "DayFromYear (y + 1) \<le> DayFromYear (YearFromDay z)"
      using ne by (intro DayFromYear_mono) simp
    then show False using YearFromDay_bounds(1)[of z] assms(2) by simp
  qed
qed

lemma DayWithinYear_range:
  "0 \<le> DayWithinYear z" "DayWithinYear z < 365 + leapDays (YearFromDay z)"
  using YearFromDay_bounds[of z] DayFromYear_Suc[of "YearFromDay z"]
  by (simp_all add: DayWithinYear_def DaysInYear_leapDays)

lemma MonthFromDay_range: "0 \<le> MonthFromDay z" "MonthFromDay z \<le> 11"
  by (simp_all add: MonthFromDay_def Let_def)

lemma MakeDay_inverse:
  "MakeDay (YearFromDay z) (MonthFromDay z) (DateFromDay z) = z"
proof -
  have m: "MonthFromDay z div 12 = 0" "MonthFromDay z mod 12 = MonthFromDay z"
    using MonthFromDay_range[of z] by simp_all
  show ?thesis
    by (simp add: MakeDay_def m DateFromDay_def DayWithinYear_def)
qed

lemma DateFromDay_range:
  "1 \<le> DateFromDay z" "DateFromDay z \<le> DaysInMonth (YearFromDay z) (MonthFromDay z)"
proof -
  define d where "d = DayWithinYear z"
  define l where "l = leapDays (YearFromDay z)"
  have d: "0 \<le> d" "d < 365 + l" using DayWithinYear_range[of z] by (simp_all add: d_def l_def)
  have l: "l = 0 \<or> l = 1" using leapDays_cases by (simp add: l_def)
  have "1 \<le> DateFromDay z \<and> DateFromDay z \<le> DaysInMonth (YearFromDay z) (MonthFromDay z)"
    unfolding DateFromDay_def MonthFromDay_def monthStart_def DaysInMonth_def Let_def
      d_def[symmetric] l_def[symmetric]
    using d l by (simp split: if_split)
  then show "1 \<le> DateFromDay z" "DateFromDay z \<le> DaysInMonth (YearFromDay z) (MonthFromDay z)"
    by simp_all
qed

lemma month_cases:
  assumes "0 \<le> m" "m \<le> (11::int)"
  shows "m = 0 \<or> m = 1 \<or> m = 2 \<or> m = 3 \<or> m = 4 \<or> m = 5 \<or> m = 6 \<or> m = 7
       \<or> m = 8 \<or> m = 9 \<or> m = 10 \<or> m = 11"
  using assms by presburger

lemma monthStart_Suc:
  assumes "0 \<le> m" "m \<le> 10"
  shows "monthStart y (m + 1) = monthStart y m + DaysInMonth y m"
  using month_cases[of m] assms
  by (auto simp: monthStart_def DaysInMonth_def)

lemma monthStart_bounds:
  assumes "0 \<le> m" "m \<le> 11"
  shows "0 \<le> monthStart y m" "monthStart y m + DaysInMonth y m \<le> 365 + leapDays y"
  using month_cases[of m] assms leapDays_cases[of y]
  by (auto simp: monthStart_def DaysInMonth_def)

lemma MonthFromDay_eq:
  assumes "0 \<le> m" "m \<le> 11" "monthStart y m \<le> d" "d < monthStart y m + DaysInMonth y m"
    "DayWithinYear z = d" "YearFromDay z = y"
  shows "MonthFromDay z = m"
proof -
  have l: "leapDays y = 0 \<or> leapDays y = 1" by (rule leapDays_cases)
  show ?thesis
    using month_cases[OF assms(1,2)] assms(3,4) l
    unfolding MonthFromDay_def Let_def assms(5,6)
    by (elim disjE; simp add: monthStart_def DaysInMonth_def)
qed

lemma civil_of_MakeDay:
  assumes "0 \<le> m" "m \<le> 11" "1 \<le> d" "d \<le> DaysInMonth y m"
  shows "YearFromDay (MakeDay y m d) = y"
    and "MonthFromDay (MakeDay y m d) = m"
    and "DateFromDay (MakeDay y m d) = d"
proof -
  have m: "m div 12 = 0" "m mod 12 = m" using assms by simp_all
  have md: "MakeDay y m d = DayFromYear y + monthStart y m + d - 1"
    by (simp add: MakeDay_def m)
  have ms: "0 \<le> monthStart y m + d - 1" "monthStart y m + d - 1 < 365 + leapDays y"
    using assms monthStart_bounds[of m y] by linarith+
  show y: "YearFromDay (MakeDay y m d) = y"
    using ms by (intro YearFromDay_unique) (simp_all add: md DayFromYear_Suc DaysInYear_leapDays)
  have dw: "DayWithinYear (MakeDay y m d) = monthStart y m + d - 1"
    by (simp add: DayWithinYear_def y) (simp add: md)
  show mm: "MonthFromDay (MakeDay y m d) = m"
    using assms by (intro MonthFromDay_eq[OF assms(1,2) _ _ dw y]) simp_all
  show "DateFromDay (MakeDay y m d) = d"
    by (simp add: DateFromDay_def dw y mm)
qed

section \<open>Writing a time value as an ISO string and reading it back\<close>

lemma of_char_digit: "0 \<le> n \<Longrightarrow> n \<le> 9 \<Longrightarrow> (of_char (digit n) :: int) = 48 + n"
  by (simp add: digit_def)

lemma isDigit_digit: "0 \<le> n \<Longrightarrow> n \<le> 9 \<Longrightarrow> isDigit (digit n)"
  by (simp add: isDigit_def of_char_digit)

lemma digitVal_digit: "0 \<le> n \<Longrightarrow> n \<le> 9 \<Longrightarrow> digitVal (digit n) = n"
  by (simp add: digitVal_def of_char_digit)

lemma digit_not_sign:
  assumes "0 \<le> n" "n \<le> 9"
  shows "digit n \<noteq> CHR ''+''" "digit n \<noteq> CHR ''-''"
proof -
  have "(of_char (digit n) :: int) \<noteq> of_char (CHR ''+'')"
       "(of_char (digit n) :: int) \<noteq> of_char (CHR ''-'')"
    using assms by (simp_all add: of_char_digit)
  then show "digit n \<noteq> CHR ''+''" "digit n \<noteq> CHR ''-''" by auto
qed

lemma length_digits: "length (digits k n) = k"
  by (induction k arbitrary: n) simp_all

lemma number_digits:
  "0 \<le> n \<Longrightarrow> n < 10 ^ k \<Longrightarrow> number (digits k n) = Some n"
proof (induction k arbitrary: n)
  case 0
  then show ?case by (simp add: number_def)
next
  case (Suc k)
  have d: "0 \<le> n div 10" "n div 10 < 10 ^ k" using Suc.prems by auto
  have m: "0 \<le> n mod 10" "n mod 10 \<le> 9" using pos_mod_bound[of 10 n] by simp_all
  from Suc.IH[OF d] have ih: "list_all isDigit (digits k (n div 10))"
    "foldl (\<lambda>a c. 10 * a + digitVal c) 0 (digits k (n div 10)) = n div 10"
    by (auto simp: number_def split: if_splits)
  show ?case
    by (simp add: number_def ih isDigit_digit[OF m] digitVal_digit[OF m])
qed

lemma takeNumber_digits:
  "0 \<le> n \<Longrightarrow> n < 10 ^ k \<Longrightarrow> takeNumber k (digits k n @ rest) = Some (n, rest)"
  by (simp add: takeNumber_def length_digits number_digits)

lemma expect_Cons: "expect c (c # rest) = Some rest"
  by (simp add: expect_def)

lemma digits_head:
  "0 \<le> n \<Longrightarrow> \<exists>c cs. digits (Suc k) n = c # cs \<and> c \<noteq> CHR ''+'' \<and> c \<noteq> CHR ''-''"
proof (induction k arbitrary: n)
  case 0
  have m: "0 \<le> n mod 10" "n mod 10 \<le> 9" using pos_mod_bound[of 10 n] by simp_all
  show ?case using digit_not_sign[OF m] by simp
next
  case (Suc k)
  have "0 \<le> n div 10" using Suc.prems by simp
  from Suc.IH[OF this] obtain c cs where
    "digits (Suc k) (n div 10) = c # cs" "c \<noteq> CHR ''+''" "c \<noteq> CHR ''-''" by blast
  then show ?case by (simp del: digits.simps add: digits.simps(2)[of "Suc k"])
qed

lemma parseYear_yearString:
  assumes "- 999999 \<le> y" "y \<le> 999999"
  shows "parseYear (yearString y @ rest) = Some (y, rest)"
proof (cases "0 \<le> y \<and> y \<le> 9999")
  case True
  have "(4::nat) = Suc 3" by simp
  then obtain c cs where d: "digits 4 y = c # cs" "c \<noteq> CHR ''+''" "c \<noteq> CHR ''-''"
    using digits_head[of y 3] True by metis
  have "parseYear (digits 4 y @ rest) = takeNumber 4 (digits 4 y @ rest)"
    unfolding d using d(2,3) by (simp add: parseYear_def)
  also have "\<dots> = Some (y, rest)" using True by (intro takeNumber_digits) simp_all
  finally show ?thesis using True by (simp add: yearString_def)
next
  case False
  show ?thesis
  proof (cases "y < 0")
    case True
    have "takeNumber 6 (digits 6 (abs y) @ rest) = Some (abs y, rest)"
      using assms by (intro takeNumber_digits) simp_all
    then show ?thesis using True False by (simp add: yearString_def parseYear_def)
  next
    case pos: False
    have "takeNumber 6 (digits 6 (abs y) @ rest) = Some (abs y, rest)"
      using assms by (intro takeNumber_digits) simp_all
    then show ?thesis using pos False by (simp add: yearString_def parseYear_def)
  qed
qed

lemma time_fields:
  "MakeTime (getHours t) (getMinutes t) (getSeconds t) (getMilliseconds t) = TimeWithinDay t"
proof -
  define H M S R1 R2 R3 W where "H = t div 3600000 mod 24" and "M = t div 60000 mod 60"
    and "S = t div 1000 mod 60" and "R1 = t mod 3600000" and "R2 = t mod 60000"
    and "R3 = t mod 1000" and "W = t mod 86400000"
  have a: "W = 3600000 * H + R1"
    unfolding W_def H_def R1_def using zmod_zmult2_eq[of 24 t 3600000] by simp
  have b: "R1 = 60000 * M + R2"
    unfolding R1_def M_def R2_def using zmod_zmult2_eq[of 60 t 60000] by simp
  have c: "R2 = 1000 * S + R3"
    unfolding R2_def S_def R3_def using zmod_zmult2_eq[of 60 t 1000] by simp
  have "H * 3600000 + M * 60000 + S * 1000 + R3 = W"
    unfolding a b c by (simp only: mult.commute add.assoc)
  then show ?thesis
    unfolding MakeTime_def getHours_def getMinutes_def getSeconds_def getMilliseconds_def
      TimeWithinDay_def msPerDay_def msPerHour_def msPerMinute_def msPerSecond_def
      H_def M_def S_def R3_def W_def .
qed

lemma day_fields: "MakeDay (getFullYear t) (getMonth t) (getDate t) = Day t"
  by (simp add: getFullYear_def getMonth_def getDate_def MakeDay_inverse)

lemma MakeDate_Day: "MakeDate (Day t) (TimeWithinDay t) = t"
  by (simp add: MakeDate_def Day_def TimeWithinDay_def)

lemma YearFromDay_le: "z < DayFromYear y \<Longrightarrow> YearFromDay z < y"
  using YearFromDay_bounds(1)[of z] DayFromYear_mono[of y "YearFromDay z"] by linarith

lemma YearFromDay_ge: "DayFromYear y \<le> z \<Longrightarrow> y \<le> YearFromDay z"
  using YearFromDay_bounds(2)[of z] DayFromYear_mono[of "YearFromDay z + 1" y] by linarith

lemma validTime_year:
  assumes "validTime t"
  shows "- 999999 \<le> getFullYear t" "getFullYear t \<le> 999999"
proof -
  have d: "- 100000000 \<le> Day t" "Day t \<le> 100000000"
    using assms by (simp_all add: validTime_def Day_def msPerDay_def)
      (use div_bounds[of 86400000 t] in linarith)+
  have "DayFromYear (- 999999) \<le> Day t"
    using DayFromYear_bounds(1)[of "- 999999"] d by simp
  then show "- 999999 \<le> getFullYear t" unfolding getFullYear_def by (rule YearFromDay_ge)
  have "Day t < DayFromYear 1000000"
    using DayFromYear_bounds(2)[of 1000000] d by simp
  then have "YearFromDay (Day t) < 1000000" by (rule YearFromDay_le)
  then show "getFullYear t \<le> 999999" by (simp add: getFullYear_def)
qed

lemma field_ranges:
  "0 \<le> getMonth t" "getMonth t \<le> 11" "1 \<le> getDate t" "getDate t \<le> 31"
  "getDate t \<le> DaysInMonth (getFullYear t) (getMonth t)"
  "0 \<le> getHours t" "getHours t \<le> 23" "0 \<le> getMinutes t" "getMinutes t \<le> 59"
  "0 \<le> getSeconds t" "getSeconds t \<le> 59" "0 \<le> getMilliseconds t" "getMilliseconds t \<le> 999"
proof -
  show "0 \<le> getMonth t" "getMonth t \<le> 11"
    by (simp_all add: getMonth_def MonthFromDay_range)
  show "1 \<le> getDate t" by (simp add: getDate_def DateFromDay_range)
  show dm: "getDate t \<le> DaysInMonth (getFullYear t) (getMonth t)"
    by (simp add: getDate_def getFullYear_def getMonth_def DateFromDay_range)
  have "DaysInMonth (getFullYear t) (getMonth t) \<le> 31"
    using leapDays_cases[of "getFullYear t"] by (auto simp: DaysInMonth_def)
  then show "getDate t \<le> 31" using dm by linarith
  show "0 \<le> getHours t" "getHours t \<le> 23" "0 \<le> getMinutes t" "getMinutes t \<le> 59"
    "0 \<le> getSeconds t" "getSeconds t \<le> 59" "0 \<le> getMilliseconds t" "getMilliseconds t \<le> 999"
    using pos_mod_bound[of 24 "t div msPerHour"] pos_mod_bound[of 60 "t div msPerMinute"]
      pos_mod_bound[of 60 "t div msPerSecond"] pos_mod_bound[of 1000 t]
    by (simp_all add: getHours_def getMinutes_def getSeconds_def getMilliseconds_def msPerSecond_def)
qed

lemma parseISO_toISOString:
  assumes "validTime t"
  shows "\<exists>str. toISOString t = Inr str \<and> str \<noteq> [] \<and> parseISO str = Some t"
proof -
  note r = field_ranges[of t]
  have n: "takeNumber 2 (digits 2 (getMonth t + 1) @ x) = Some (getMonth t + 1, x)"
    "takeNumber 2 (digits 2 (getDate t) @ x) = Some (getDate t, x)"
    "takeNumber 2 (digits 2 (getHours t) @ x) = Some (getHours t, x)"
    "takeNumber 2 (digits 2 (getMinutes t) @ x) = Some (getMinutes t, x)"
    "takeNumber 2 (digits 2 (getSeconds t) @ x) = Some (getSeconds t, x)"
    "takeNumber 3 (digits 3 (getMilliseconds t) @ x) = Some (getMilliseconds t, x)" for x
    using r by (intro takeNumber_digits; simp)+
  have y: "parseYear (yearString (getFullYear t) @ x) = Some (getFullYear t, x)" for x
    using validTime_year[OF assms] by (rule parseYear_yearString)
  have mk: "MakeDate (MakeDay (getFullYear t) (getMonth t) (getDate t))
      (MakeTime (getHours t) (getMinutes t) (getSeconds t) (getMilliseconds t)) = t"
    by (simp add: day_fields time_fields MakeDate_Day)
  define str where "str = yearString (getFullYear t) @
        CHR ''-'' # digits 2 (getMonth t + 1) @
        CHR ''-'' # digits 2 (getDate t) @
        CHR ''T'' # digits 2 (getHours t) @
        CHR '':'' # digits 2 (getMinutes t) @
        CHR '':'' # digits 2 (getSeconds t) @
        CHR ''.'' # digits 3 (getMilliseconds t) @ [CHR ''Z'']"
  have 1: "toISOString t = Inr str" using assms by (simp add: toISOString_def str_def)
  have 2: "str \<noteq> []" by (simp add: str_def)
  have d: "parseDatePart (yearString (getFullYear t) @
        CHR ''-'' # digits 2 (getMonth t + 1) @ CHR ''-'' # digits 2 (getDate t) @ x)
      = Some (getFullYear t, getMonth t + 1, getDate t, x)" for x
    unfolding parseDatePart_def by (simp del: digits.simps add: y n expect_Cons)
  have tm: "parseTimePart (digits 2 (getHours t) @ CHR '':'' # digits 2 (getMinutes t) @
        CHR '':'' # digits 2 (getSeconds t) @ CHR ''.'' # digits 3 (getMilliseconds t) @ x)
      = Some (getHours t, getMinutes t, getSeconds t, getMilliseconds t, x)" for x
    unfolding parseTimePart_def by (simp del: digits.simps add: n expect_Cons)
  have z: "parseOffset [CHR ''Z''] = Some 0" by (simp add: parseOffset_def)
  have 3: "parseISO str = Some t"
    unfolding parseISO_def str_def
    using r assms by (simp del: digits.simps add: d tm z mk)
  show ?thesis using 1 2 3 by blast
qed

text \<open>The other forms of the format: date-only, without seconds, with an offset.\<close>

lemma parseISO_forms:
  "parseISO ''2024-01-15'' = Some (newDate 2024 0 15 0 0)"
  "parseISO ''2024-01'' = Some (newDate 2024 0 1 0 0)"
  "parseISO ''2024'' = Some (newDate 2024 0 1 0 0)"
  "parseISO ''2024-01-15T10:30'' = Some (newDate 2024 0 15 10 30)"
  "parseISO ''2024-01-15T10:30:00'' = Some (newDate 2024 0 15 10 30)"
  "parseISO ''2024-01-15T10:30:00.000Z'' = Some (newDate 2024 0 15 10 30)"
  "parseISO ''2024-01-15T10:30:00+02:00'' = Some (newDate 2024 0 15 8 30)"
  "parseISO ''2024-01-15T10:30-02:00'' = Some (newDate 2024 0 15 12 30)"
  "parseISO ''2024-01-15T24:00'' = Some (newDate 2024 0 16 0 0)"
  "parseISO ''2024-13-15'' = None"
  "parseISO ''2024-01-15T10:60'' = None"
  "parseISO ''2024-01-15Z'' = None"
  "parseISO ''-000000-01-01'' = None"
  "parseISO ''15.01.2024'' = None"
  by code_simp+

section \<open>The committed value under the handlers\<close>

lemma fieldValue_openEffect: "fieldValue (openEffect P now s) = fieldValue s"
  by (simp add: openEffect_def Let_def)

lemma fieldValue_afterRender: "fieldValue (afterRender P now s s') = fieldValue s'"
  by (simp add: afterRender_def fieldValue_openEffect)

lemma fieldValue_setHour: "fieldValue (setHour P h s) = fieldValue s"
  by (simp add: setHour_def Let_def)

lemma fieldRef_setHour: "fieldRef (setHour P h s) = fieldRef s"
  by (simp add: setHour_def Let_def)

lemma isOpen_setHour: "isOpen (setHour P h s) = isOpen s"
  by (simp add: setHour_def Let_def)

lemma fieldValue_handleDateSelect: "fieldValue (handleDateSelect d s) = fieldValue s"
  by (simp add: handleDateSelect_def Let_def)

lemma fieldValue_handleMonthChange: "fieldValue (handleMonthChange P m s) = fieldValue s"
  by (simp add: handleMonthChange_def Let_def)

lemma fieldValue_handleYearChange: "fieldValue (handleYearChange y s) = fieldValue s"
  by (simp add: handleYearChange_def Let_def)

lemma fieldValue_navigateMonth: "fieldValue (navigateMonth dir s) = fieldValue s"
  by (simp add: navigateMonth_def)

lemma fieldValue_toggleView: "fieldValue (toggleView s) = fieldValue s"
  by (simp add: toggleView_def)

lemma fieldValue_resetFromSelected: "fieldValue (resetFromSelected P now s) = fieldValue s"
  by (simp add: resetFromSelected_def Let_def)

lemma fieldValue_onOpenChange: "fieldValue (onOpenChange P now b s) = fieldValue s"
  by (simp add: onOpenChange_def Let_def fieldValue_resetFromSelected)

lemma afterRender_same:
  "isOpen s' = isOpen s \<Longrightarrow> fieldRef s' = fieldRef s \<Longrightarrow> afterRender P now s s' = s'"
  by (simp add: afterRender_def selectedChanged_def)

lemma step_changes_field:
  assumes "step P now e s = Inr s'" "fieldValue s' \<noteq> fieldValue s"
  shows "(\<exists>m. e = MinuteClick m) \<or> (e = ClearClick \<and> fieldValue s' = VUndefined)"
proof (cases "enabled P now s e")
  case False
  then show ?thesis using assms by (simp add: step_def)
next
  case True
  show ?thesis
  proof (cases e)
    case ClearClick
    then show ?thesis using assms True
      by (auto simp: step_def handle_def clear_def commit_def onChange_def fieldValue_afterRender)
  qed (use assms True in \<open>auto simp: step_def handle_def fieldValue_afterRender
        fieldValue_setHour fieldValue_handleDateSelect fieldValue_handleMonthChange
        fieldValue_handleYearChange fieldValue_navigateMonth fieldValue_toggleView
        fieldValue_onOpenChange\<close>)
qed


lemma example_opens:
  "run exampleProps [(exampleNow, OpenChange True)] exampleClosed = Inr exampleOpened"
  by code_simp

text \<open>
  C3, as stated, fails in its middle part: a pick of an hour changes more than the
  draft's hour and the minute-chosen flag. Right after opening with no value, a click
  on the enabled hour 10 also sets \<open>picked.date\<close> and \<open>hourTouched\<close>; and on a draft at
  10:30 a pick of hour 11 puts the draft's minute back to 0.
\<close>

theorem pick_hour_frame_counterexample:
  "enabled exampleProps exampleNow exampleOpened (HourClick 10)
   \<and> step exampleProps exampleNow (HourClick 10) exampleOpened
       = Inr (setHour exampleProps 10 exampleOpened)
   \<and> \<not> onlyHourAndMinuteFlag exampleOpened (setHour exampleProps 10 exampleOpened)
   \<and> \<not> pickedDate exampleOpened \<and> pickedDate (setHour exampleProps 10 exampleOpened)
   \<and> \<not> hourTouched exampleOpened \<and> hourTouched (setHour exampleProps 10 exampleOpened)
   \<and> getMinutes (draft exampleCommitted) = 30
   \<and> getMinutes (draft (setHour exampleProps 11 exampleCommitted)) = 0
   \<and> \<not> onlyHourAndMinuteFlag exampleCommitted (setHour exampleProps 11 exampleCommitted)"
  by code_simp

text \<open>
  C3, amended. Picking an hour never changes the committed value: \<open>setHour\<close> leaves
  \<open>field.value\<close> as it is, and either rejects the hour (the state is unchanged) or keeps
  the draft's date, sets its hour to the clamped \<open>h\<close>, puts its minute back to 0, sets
  \<open>picked.date\<close> and \<open>hourTouched\<close>, and clears \<open>picked.time\<close> and \<open>minuteTouched\<close>; the
  click on an hour is exactly that, no effect runs after it. Of all the events, only a
  click on a minute can store a new value; the clear button stores \<open>undefined\<close>. This
  holds whatever \<open>requireTime\<close> is, so in particular in date-time mode.
\<close>

theorem pick_hour_never_commits:
  "fieldValue (setHour P h s) = fieldValue s
   \<and> (setHour P h s = s
      \<or> setHour P h s =
          s\<lparr>draft := newDate (getFullYear (draft s)) (getMonth (draft s)) (getDate (draft s))
                        (clamp h 0 23) 0,
            pickedDate := True, pickedTime := False,
            hourTouched := True, minuteTouched := False\<rparr>)
   \<and> step P now (HourClick h) s =
        Inr (if enabled P now s (HourClick h) then setHour P h s else s)
   \<and> (\<forall>e s'. step P now e s = Inr s' \<longrightarrow> fieldValue s' \<noteq> fieldValue s \<longrightarrow>
         (\<exists>m. e = MinuteClick m) \<or> (e = ClearClick \<and> fieldValue s' = VUndefined))"
proof (intro conjI allI impI)
  show "fieldValue (setHour P h s) = fieldValue s" by (rule fieldValue_setHour)
  show "setHour P h s = s
      \<or> setHour P h s =
          s\<lparr>draft := newDate (getFullYear (draft s)) (getMonth (draft s)) (getDate (draft s))
                        (clamp h 0 23) 0,
            pickedDate := True, pickedTime := False,
            hourTouched := True, minuteTouched := False\<rparr>"
    by (simp add: setHour_def Let_def)
  show "step P now (HourClick h) s =
        Inr (if enabled P now s (HourClick h) then setHour P h s else s)"
    by (simp add: step_def handle_def afterRender_same isOpen_setHour fieldRef_setHour)
next
  fix e s'
  assume "step P now e s = Inr s'" "fieldValue s' \<noteq> fieldValue s"
  then show "(\<exists>m. e = MinuteClick m) \<or> (e = ClearClick \<and> fieldValue s' = VUndefined)"
    by (rule step_changes_field)
qed

theorem pick_hour_never_commits_witness:
  "step exampleProps exampleNow (MinuteClick 30) exampleHourPicked = Inr exampleCommitted
   \<and> fieldValue exampleCommitted \<noteq> fieldValue exampleHourPicked
   \<and> ((\<exists>m. MinuteClick 30 = MinuteClick m)
       \<or> (MinuteClick 30 = ClearClick \<and> fieldValue exampleCommitted = VUndefined))
   \<and> fieldValue (setHour exampleProps 11 exampleHourPicked) = fieldValue exampleHourPicked
   \<and> draft (setHour exampleProps 11 exampleHourPicked) = newDate 2024 0 15 11 0"
proof -
  have a: "step exampleProps exampleNow (MinuteClick 30) exampleHourPicked = Inr exampleCommitted"
    by code_simp
  have b: "fieldValue exampleCommitted \<noteq> fieldValue exampleHourPicked"
    by (simp add: exampleCommitted_def exampleHourPicked_def)
  have c: "draft (setHour exampleProps 11 exampleHourPicked) = newDate 2024 0 15 11 0"
    by code_simp
  note t = pick_hour_never_commits[of exampleProps 11 exampleHourPicked exampleNow]
  from t a b have d: "(\<exists>m. MinuteClick 30 = MinuteClick m)
       \<or> (MinuteClick 30 = ClearClick \<and> fieldValue exampleCommitted = VUndefined)"
    by blast
  from t have e: "fieldValue (setHour exampleProps 11 exampleHourPicked)
      = fieldValue exampleHourPicked" by blast
  show ?thesis using a b c d e by blast
qed

section \<open>The committed value and the range\<close>

text \<open>
  C1 does not hold of the code. With the minimum at 2024-01-10 09:07, opening the
  picker, clicking day 10 and then minute 30 commits 2024-01-10 00:30, an instant
  before the minimum: \<open>handleDateSelect\<close> puts the draft at hour 0, \<open>isMinuteDisabled\<close>
  applies the minute floor only when the draft's hour is the minimum's hour and
  otherwise asks \<open>isDateTimeDisabled\<close>, and that check and the one in \<open>commit\<close> compare
  dates only. Each click is on an element the picker renders enabled.
\<close>

theorem commit_before_min_reachable:
  "enabled exampleProps exampleNow exampleOpened (DayClick 10)
   \<and> \<not> isMinuteDisabled exampleProps (handleDateSelect 10 exampleOpened) 30
   \<and> (case run exampleProps
              [(exampleNow, OpenChange True), (exampleNow, DayClick 10),
               (exampleNow, MinuteClick 30)] exampleClosed of
         Inl e \<Rightarrow> False
       | Inr s \<Rightarrow> selected s = Some (newDate 2024 0 10 0 30))
   \<and> newDate 2024 0 10 0 30 < newDate 2024 0 10 9 7
   \<and> \<not> allowsFullInstant (newDate 2024 0 10 0 30) (rangeObj exampleProps)"
  by code_simp

section \<open>Encoding and decoding the committed value\<close>

text \<open>
  C8. For a valid time value \<open>v\<close> that the range lets through, \<open>commit\<close> stores a value
  that \<open>parseToDate\<close> decodes to \<open>v\<close> again, in both modes: with \<open>valueAs = "date"\<close> the
  stored value is the Date \<open>v\<close> itself; with \<open>valueAs = "iso"\<close> it is the string
  \<open>v.toISOString()\<close>, and parsing that string gives \<open>v\<close>. This holds at millisecond
  precision, so in particular for a committed instant with seconds zeroed.
\<close>

theorem decode_encode_roundtrip:
  assumes "validTime v" "isDateInRange v (Some (rangeObj P)) True"
  shows "\<exists>s'. commit P (Some v) s = Inr s' \<and> selected s' = Some v
     \<and> (case valueAs P of
          ValueDate \<Rightarrow> fieldValue s' = VDate v
        | ValueIso \<Rightarrow> (\<exists>str. toISOString v = Inr str \<and> fieldValue s' = VString str
                         \<and> parseToDate (VString str) = Some v))"
proof (cases "valueAs P")
  case ValueDate
  then show ?thesis using assms(2)
    by (simp add: commit_def onChange_def selected_def parseToDate_def)
next
  case ValueIso
  from parseISO_toISOString[OF assms(1)] obtain str where
    str: "toISOString v = Inr str" "str \<noteq> []" "parseISO str = Some v" by blast
  then show ?thesis using assms(2) ValueIso
    by (simp add: commit_def onChange_def selected_def parseToDate_def)
qed

theorem decode_encode_roundtrip_witness:
  "validTime (newDate 2024 0 15 10 30)
   \<and> isDateInRange (newDate 2024 0 15 10 30)
        (Some (rangeObj (exampleProps\<lparr>valueAs := ValueIso\<rparr>))) True
   \<and> (\<exists>s'. commit (exampleProps\<lparr>valueAs := ValueIso\<rparr>) (Some (newDate 2024 0 15 10 30))
               exampleHourPicked = Inr s'
          \<and> selected s' = Some (newDate 2024 0 15 10 30)
          \<and> fieldValue s' = VString ''2024-01-15T10:30:00.000Z'')"
proof -
  have v: "validTime (newDate 2024 0 15 10 30)" by code_simp
  have r: "isDateInRange (newDate 2024 0 15 10 30)
        (Some (rangeObj (exampleProps\<lparr>valueAs := ValueIso\<rparr>))) True" by code_simp
  have m: "valueAs (exampleProps\<lparr>valueAs := ValueIso\<rparr>) = ValueIso" by simp
  have i: "toISOString (newDate 2024 0 15 10 30) = Inr ''2024-01-15T10:30:00.000Z''"
    by code_simp
  from decode_encode_roundtrip[OF v r, of exampleHourPicked] obtain s' where
    s': "commit (exampleProps\<lparr>valueAs := ValueIso\<rparr>) (Some (newDate 2024 0 15 10 30))
           exampleHourPicked = Inr s'"
        "selected s' = Some (newDate 2024 0 15 10 30)"
        "\<exists>str. toISOString (newDate 2024 0 15 10 30) = Inr str \<and> fieldValue s' = VString str
           \<and> parseToDate (VString str) = Some (newDate 2024 0 15 10 30)"
    unfolding m by (auto simp only: ValueAs.case)
  from s'(3) i have "fieldValue s' = VString ''2024-01-15T10:30:00.000Z''" by auto
  with s'(1,2) v r show ?thesis by blast
qed

section \<open>Dates rebuilt from their fields\<close>

lemma Day_MakeDate: "0 \<le> w \<Longrightarrow> w < msPerDay \<Longrightarrow> Day (MakeDate z w) = z"
  by (simp add: Day_def MakeDate_def msPerDay_def div_pos_pos_trivial)

lemma MakeTime_range:
  assumes "0 \<le> h" "h \<le> 23" "0 \<le> mi" "mi \<le> 59"
  shows "0 \<le> MakeTime h mi 0 0" "MakeTime h mi 0 0 < msPerDay"
  using assms by (simp_all add: MakeTime_def msPerDay_def msPerHour_def msPerMinute_def)

lemma hours_of_MakeDate:
  assumes "0 \<le> h" "h \<le> 23" "0 \<le> mi" "mi \<le> 59"
  shows "getHours (MakeDate z (MakeTime h mi 0 0)) = h"
proof -
  have e: "MakeDate z (MakeTime h mi 0 0) = 3600000 * (24 * z + h) + 60000 * mi"
    by (simp add: MakeDate_def MakeTime_def msPerDay_def msPerHour_def msPerMinute_def)
  have "(3600000 * (24 * z + h) + 60000 * mi) div 3600000 = 24 * z + h"
    using assms int_div_pos_eq[of "3600000 * (24 * z + h) + 60000 * mi" 3600000 "24 * z + h" "60000 * mi"]
    by simp
  moreover have "(24 * z + h) mod 24 = h"
    using assms int_mod_pos_eq[of "24 * z + h" 24 z h] by simp
  ultimately show ?thesis by (simp add: getHours_def e msPerHour_def)
qed

lemma minutes_of_MakeDate:
  assumes "0 \<le> mi" "mi \<le> 59"
  shows "getMinutes (MakeDate z (MakeTime h mi 0 0)) = mi"
proof -
  have e: "MakeDate z (MakeTime h mi 0 0) = 60000 * (60 * (24 * z + h) + mi)"
    by (simp add: MakeDate_def MakeTime_def msPerDay_def msPerHour_def msPerMinute_def)
  have "(60 * (24 * z + h) + mi) mod 60 = mi"
    using assms int_mod_pos_eq[of "60 * (24 * z + h) + mi" 60 "24 * z + h" mi] by simp
  then show ?thesis by (simp add: getMinutes_def e msPerMinute_def)
qed

lemma seconds_of_MakeDate:
  "getSeconds (MakeDate z (MakeTime h mi 0 0)) = 0"
  "getMilliseconds (MakeDate z (MakeTime h mi 0 0)) = 0"
proof -
  have e: "MakeDate z (MakeTime h mi 0 0) = 1000 * (60 * (60 * (24 * z + h) + mi))"
    by (simp add: MakeDate_def MakeTime_def msPerDay_def msPerHour_def msPerMinute_def)
  show "getSeconds (MakeDate z (MakeTime h mi 0 0)) = 0"
    by (simp add: getSeconds_def e msPerSecond_def)
  show "getMilliseconds (MakeDate z (MakeTime h mi 0 0)) = 0"
    by (simp add: getMilliseconds_def e msPerSecond_def)
qed

lemma newDate_plain:
  "\<not> legacyYear y \<Longrightarrow> newDate y m d h mi = MakeDate (MakeDay y m d) (MakeTime h mi 0 0)"
  by (simp add: newDate_def)

lemma fields_of_newDate:
  assumes "\<not> legacyYear y" "0 \<le> m" "m \<le> 11" "1 \<le> d" "d \<le> DaysInMonth y m"
    "0 \<le> h" "h \<le> 23" "0 \<le> mi" "mi \<le> 59"
  shows "getFullYear (newDate y m d h mi) = y" "getMonth (newDate y m d h mi) = m"
    "getDate (newDate y m d h mi) = d" "getHours (newDate y m d h mi) = h"
    "getMinutes (newDate y m d h mi) = mi" "getSeconds (newDate y m d h mi) = 0"
    "getMilliseconds (newDate y m d h mi) = 0" "Day (newDate y m d h mi) = MakeDay y m d"
proof -
  note n = newDate_plain[OF assms(1)]
  show dd: "Day (newDate y m d h mi) = MakeDay y m d"
    unfolding n using MakeTime_range[OF assms(6-9)] by (intro Day_MakeDate)
  show "getFullYear (newDate y m d h mi) = y" "getMonth (newDate y m d h mi) = m"
    "getDate (newDate y m d h mi) = d"
    using civil_of_MakeDay[OF assms(2-5)] by (simp_all add: getFullYear_def getMonth_def getDate_def dd)
  show "getHours (newDate y m d h mi) = h" unfolding n by (rule hours_of_MakeDate[OF assms(6-9)])
  show "getMinutes (newDate y m d h mi) = mi" unfolding n by (rule minutes_of_MakeDate[OF assms(8,9)])
  show "getSeconds (newDate y m d h mi) = 0" "getMilliseconds (newDate y m d h mi) = 0"
    unfolding n by (rule seconds_of_MakeDate)+
qed

lemma stripTime_plain: "plainDate t \<Longrightarrow> stripTime t = Day t * msPerDay"
  by (simp add: stripTime_def newDateYMD_def plainDate_def newDate_plain day_fields
      MakeDate_def MakeTime_def)

lemma msPerDay_le: "a * msPerDay \<le> b * msPerDay \<longleftrightarrow> a \<le> b"
  "a * msPerDay < b * msPerDay \<longleftrightarrow> a < b"
  by (simp_all add: msPerDay_def)


lemma MakeDay_date: "MakeDay y m d = MakeDay y m 1 + (d - 1)"
  by (simp add: MakeDay_def Let_def)

lemma MakeDay_end:
  assumes "0 \<le> m" "m \<le> 11"
  shows "MakeDay y (m + 1) 0 = MakeDay y m (DaysInMonth y m)"
proof (cases "m = 11")
  case True
  have "DayFromYear (y + 1) = DayFromYear y + 365 + leapDays y"
    by (simp add: DayFromYear_Suc DaysInYear_leapDays)
  then show ?thesis using True by (simp add: MakeDay_def monthStart_def DaysInMonth_def)
next
  case False
  then have m: "m \<le> 10" using assms by simp
  have "m div 12 = 0" "m mod 12 = m" "(m + 1) div 12 = 0" "(m + 1) mod 12 = m + 1"
    using assms m by simp_all
  then show ?thesis using monthStart_Suc[OF assms(1) m, of y] by (simp add: MakeDay_def)
qed

lemma DaysInMonth_ge: "28 \<le> DaysInMonth y m" "DaysInMonth y m \<le> 31"
  using leapDays_cases[of y] by (auto simp: DaysInMonth_def)

lemma in_month_iff:
  assumes "0 \<le> m" "m \<le> 11"
  shows "(YearFromDay z = y \<and> MonthFromDay z = m)
     \<longleftrightarrow> (MakeDay y m 1 \<le> z \<and> z \<le> MakeDay y m (DaysInMonth y m))"
proof
  assume a: "YearFromDay z = y \<and> MonthFromDay z = m"
  have "MakeDay y m (DateFromDay z) = z" using MakeDay_inverse[of z] a by simp
  then have "MakeDay y m 1 + (DateFromDay z - 1) = z" using MakeDay_date[of y m "DateFromDay z"] by simp
  moreover have "MakeDay y m (DaysInMonth y m) = MakeDay y m 1 + (DaysInMonth y m - 1)"
    by (rule MakeDay_date)
  ultimately show "MakeDay y m 1 \<le> z \<and> z \<le> MakeDay y m (DaysInMonth y m)"
    using DateFromDay_range[of z] a by simp
next
  assume b: "MakeDay y m 1 \<le> z \<and> z \<le> MakeDay y m (DaysInMonth y m)"
  define d where "d = z - MakeDay y m 1 + 1"
  have z: "z = MakeDay y m d" using MakeDay_date[of y m d] by (simp add: d_def)
  have "1 \<le> d" "d \<le> DaysInMonth y m"
    using b MakeDay_date[of y m "DaysInMonth y m"] by (simp_all add: d_def)
  from civil_of_MakeDay(1,2)[OF assms this] show "YearFromDay z = y \<and> MonthFromDay z = m"
    by (simp add: z)
qed

lemma newDateYMD_first:
  assumes "\<not> legacyYear y" "0 \<le> m" "m \<le> 11"
  shows "Day (newDateYMD y m 1) = MakeDay y m 1" "getFullYear (newDateYMD y m 1) = y"
    "getMonth (newDateYMD y m 1) = m" "getDate (newDateYMD y m 1) = 1"
    "stripTime (newDateYMD y m 1) = MakeDay y m 1 * msPerDay"
proof -
  have d: "1 \<le> DaysInMonth y m" using DaysInMonth_ge(1)[of y m] by simp
  note f = fields_of_newDate[OF assms(1-3) _ d, of 0 0, simplified]
  show "Day (newDateYMD y m 1) = MakeDay y m 1" "getFullYear (newDateYMD y m 1) = y"
    "getMonth (newDateYMD y m 1) = m" "getDate (newDateYMD y m 1) = 1"
    using f by (simp_all add: newDateYMD_def)
  then show "stripTime (newDateYMD y m 1) = MakeDay y m 1 * msPerDay"
    using assms(1) by (simp add: stripTime_plain plainDate_def)
qed

lemma newDateYMD_last:
  assumes "\<not> legacyYear y" "0 \<le> m" "m \<le> 11"
  shows "Day (newDateYMD y (m + 1) 0) = MakeDay y m (DaysInMonth y m)"
    "getFullYear (newDateYMD y (m + 1) 0) = y"
    "getMonth (newDateYMD y (m + 1) 0) = m"
    "getDate (newDateYMD y (m + 1) 0) = DaysInMonth y m"
    "stripTime (newDateYMD y (m + 1) 0) = MakeDay y m (DaysInMonth y m) * msPerDay"
proof -
  have d: "1 \<le> DaysInMonth y m" using DaysInMonth_ge(1)[of y m] by simp
  have e: "newDateYMD y (m + 1) 0 = newDate y m (DaysInMonth y m) 0 0"
    using assms(1) by (simp add: newDateYMD_def newDate_plain MakeDay_end[OF assms(2,3)])
  note f = fields_of_newDate[OF assms(1-3) d, of 0 0, simplified]
  show "Day (newDateYMD y (m + 1) 0) = MakeDay y m (DaysInMonth y m)"
    "getFullYear (newDateYMD y (m + 1) 0) = y"
    "getMonth (newDateYMD y (m + 1) 0) = m"
    "getDate (newDateYMD y (m + 1) 0) = DaysInMonth y m"
    unfolding e using f by simp_all
  then show "stripTime (newDateYMD y (m + 1) 0) = MakeDay y m (DaysInMonth y m) * msPerDay"
    using assms(1) by (simp add: stripTime_plain plainDate_def)
qed

lemma isMonthInRange_days:
  assumes "\<not> legacyYear y" "0 \<le> m" "m \<le> 11" "plainRange r"
  shows "isMonthInRange y m (Some r) =
     (\<exists>z. MakeDay y m 1 \<le> z \<and> z \<le> MakeDay y m (DaysInMonth y m) \<and> dayInRange r z)"
proof -
  define a where "a = MakeDay y m 1"
  define b where "b = MakeDay y m (DaysInMonth y m)"
  have ab: "a \<le> b" using MakeDay_date[of y m "DaysInMonth y m"] DaysInMonth_ge(1)[of y m]
    by (simp add: a_def b_def)
  note f = newDateYMD_first(5)[OF assms(1-3), folded a_def]
  note l = newDateYMD_last(5)[OF assms(1-3), folded b_def]
  show ?thesis
  proof (cases "range_min r")
    case None
    note mn = None
    show ?thesis
    proof (cases "range_max r")
      case None
      then show ?thesis using mn ab
        by (auto simp: isMonthInRange_def dayInRange_def a_def[symmetric] b_def[symmetric])
    next
      case (Some mx)
      then have "plainDate mx" using assms(4) by (simp add: plainRange_def)
      then have "isMonthInRange y m (Some r) = (a \<le> min b (Day mx))"
        using mn Some
        by (simp add: isMonthInRange_def f l getTime_def stripTime_plain Let_def
            min_mult_distrib_right msPerDay_le msPerDay_def)
      also have "\<dots> = (\<exists>z. a \<le> z \<and> z \<le> b \<and> z \<le> Day mx)"
        using ab by (intro iffI exI[of _ a]) auto
      finally show ?thesis using mn Some
        by (simp add: dayInRange_def a_def b_def)
    qed
  next
    case (Some mn)
    then have pm: "plainDate mn" using assms(4) by (simp add: plainRange_def)
    show ?thesis
    proof (cases "range_max r")
      case None
      have "isMonthInRange y m (Some r) = (max a (Day mn) \<le> b)"
        using Some None pm
        by (simp add: isMonthInRange_def f l getTime_def stripTime_plain Let_def
            max_mult_distrib_right msPerDay_le msPerDay_def)
      also have "\<dots> = (\<exists>z. a \<le> z \<and> z \<le> b \<and> Day mn \<le> z)"
        using ab by (intro iffI exI[of _ "max a (Day mn)"]) auto
      finally show ?thesis using Some None
        by (auto simp: dayInRange_def a_def b_def)
    next
      case mxs: (Some mx)
      then have px: "plainDate mx" using assms(4) by (simp add: plainRange_def)
      have "isMonthInRange y m (Some r) = (max a (Day mn) \<le> min b (Day mx))"
        using Some mxs pm px
        by (simp add: isMonthInRange_def f l getTime_def stripTime_plain Let_def
            max_mult_distrib_right min_mult_distrib_right msPerDay_le msPerDay_def)
      also have "\<dots> = (\<exists>z. a \<le> z \<and> z \<le> b \<and> Day mn \<le> z \<and> z \<le> Day mx)"
        using ab by (intro iffI exI[of _ "max a (Day mn)"]) auto
      finally show ?thesis using Some mxs
        by (auto simp: dayInRange_def a_def b_def)
    qed
  qed
qed

section \<open>The range check\<close>

text \<open>
  C2 does not hold of the code. The check the picker applies to an instant is
  \<open>isDateTimeDisabled\<close>, which only calls \<open>isDateInRange\<close>, and that strips the time of
  the instant and of both bounds: with the minimum at 2024-01-10 09:07 the instant
  2024-01-10 00:00 is let through, although it is before the minimum.
\<close>

theorem full_instant_check_counterexample:
  "\<not> ((\<not> isDateTimeDisabled exampleProps (newDate 2024 0 10 0 0))
        = allowsFullInstant (newDate 2024 0 10 0 0) (rangeObj exampleProps))"
  by code_simp

section \<open>Months that have an open day\<close>

text \<open>
  C7. \<open>isMonthInRange\<close> holds iff some day of that month lies within the range, the
  bounds taken at their dates (an absent bound, or an absent range, not limiting): the
  closed interval from the first to the last day of the month meets the interval of the
  range. It takes no exclusion predicate, so the picker's month-level check is the same
  whatever \<open>disabledDates\<close> is; when the predicate excludes every day, \<open>isDayDisabled\<close>
  reports every day disabled while the month is still reported open.
\<close>

theorem month_open_iff_intersects:
  assumes "\<not> legacyYear y" "0 \<le> m" "m \<le> 11" "plainRange r"
  shows "isMonthInRange y m (Some r)
       = (\<exists>z. YearFromDay z = y \<and> MonthFromDay z = m \<and> dayInRange r z)
     \<and> isMonthInRange y m None
     \<and> isMonthInRange y m (Some (rangeObj (P\<lparr>disabledDates := q\<rparr>)))
         = isMonthInRange y m (Some (rangeObj P))
     \<and> ((\<forall>d. p d) \<longrightarrow> (\<forall>d. isDayDisabled d (Some r) (Some p)))"
proof (intro conjI impI allI)
  show "isMonthInRange y m (Some r)
       = (\<exists>z. YearFromDay z = y \<and> MonthFromDay z = m \<and> dayInRange r z)"
    unfolding isMonthInRange_days[OF assms] using in_month_iff[OF assms(2,3), of _ y] by auto
  show "isMonthInRange y m None" by (simp add: isMonthInRange_def)
  show "isMonthInRange y m (Some (rangeObj (P\<lparr>disabledDates := q\<rparr>)))
         = isMonthInRange y m (Some (rangeObj P))"
    by (simp add: rangeObj_def)
next
  fix d assume "\<forall>d. p d"
  then show "isDayDisabled d (Some r) (Some p)" by (simp add: isDayDisabled_def)
qed

theorem month_open_iff_intersects_witness:
  "\<not> legacyYear 2024 \<and> (0::int) \<le> 2 \<and> (2::int) \<le> 11
   \<and> plainRange \<lparr>range_min = Some (newDate 2024 2 1 0 0), range_max = Some (newDate 2024 2 1 0 0)\<rparr>
   \<and> isMonthInRange 2024 2
        (Some \<lparr>range_min = Some (newDate 2024 2 1 0 0), range_max = Some (newDate 2024 2 1 0 0)\<rparr>)
   \<and> (\<exists>z. YearFromDay z = 2024 \<and> MonthFromDay z = 2 \<and>
          dayInRange \<lparr>range_min = Some (newDate 2024 2 1 0 0),
                      range_max = Some (newDate 2024 2 1 0 0)\<rparr> z)
   \<and> (\<forall>d. isDayDisabled d
          (Some \<lparr>range_min = Some (newDate 2024 2 1 0 0), range_max = Some (newDate 2024 2 1 0 0)\<rparr>)
          (Some (\<lambda>d. True)))"
proof -
  let ?r = "\<lparr>range_min = Some (newDate 2024 2 1 0 0), range_max = Some (newDate 2024 2 1 0 0)\<rparr>"
  have a: "\<not> legacyYear 2024" by code_simp
  have b: "plainRange ?r" by code_simp
  have c: "isMonthInRange 2024 2 (Some ?r)" by code_simp
  note t = month_open_iff_intersects[where m = 2 and p = "\<lambda>d. True", OF a _ _ b]
  from t c have "\<exists>z. YearFromDay z = 2024 \<and> MonthFromDay z = 2 \<and> dayInRange ?r z"
    by simp
  moreover from t have "\<forall>d. isDayDisabled d (Some ?r) (Some (\<lambda>d. True))" by simp
  ultimately show ?thesis using a b c by simp
qed

section \<open>The day grid\<close>

lemma padToWeeks_eq:
  "padToWeeks out = out @ replicate ((7 - length out mod 7) mod 7) None"
proof (induction out rule: padToWeeks.induct)
  case (1 out)
  show ?case
  proof (cases "length out mod 7 = 0")
    case True
    then show ?thesis by (simp add: padToWeeks.simps[of out])
  next
    case False
    define r where "r = length out mod 7"
    have r: "r \<noteq> 0" "r < 7" using False by (simp_all add: r_def)
    have sr: "Suc (length out) mod 7 = (if Suc r = 7 then 0 else Suc r)"
      by (simp add: mod_Suc r_def)
    have k: "(7 - length out mod 7) mod 7 = Suc ((7 - Suc (length out) mod 7) mod 7)"
      unfolding sr r_def[symmetric] using r by (cases "Suc r = 7") simp_all
    have "padToWeeks out = padToWeeks (out @ [None])"
      using False by (subst padToWeeks.simps) simp
    also have "\<dots> = (out @ [None]) @ replicate ((7 - Suc (length out) mod 7) mod 7) None"
      using "1.IH"[OF False] by simp
    also have "\<dots> = out @ replicate ((7 - length out mod 7) mod 7) None"
      unfolding k by simp
    finally show ?thesis .
  qed
qed

lemma length_padToWeeks: "length (padToWeeks out) mod 7 = 0"
proof -
  define r where "r = length out mod 7"
  have r: "r < 7" by (simp add: r_def)
  have "(length out + (7 - r) mod 7) mod 7 = (r + (7 - r) mod 7) mod 7"
    unfolding r_def by (simp add: mod_add_left_eq)
  also have "\<dots> = 0" using r by (cases "r = 0") simp_all
  finally show ?thesis unfolding padToWeeks_eq by (simp add: r_def)
qed

lemma weekdayIndexMonFirst_WeekDay:
  "weekdayIndexMonFirst (WeekDay z) = (z + 3) mod 7"
  "weekdayIndexMonFirst (WeekDay z) = (WeekDay z + 6) mod 7"
  "0 \<le> WeekDay z" "WeekDay z \<le> 6"
proof -
  define w where "w = (z + 4) mod 7"
  have w: "0 \<le> w" "w < 7" by (simp_all add: w_def)
  have "(w + 6) mod 7 = (z + 4 + 6) mod 7"
    unfolding w_def by (rule mod_add_left_eq)
  also have "z + 4 + 6 = (z + 3) + 7" by simp
  also have "(z + 3 + 7) mod 7 = (z + 3) mod 7" by (rule mod_add_self2)
  finally have e: "(w + 6) mod 7 = (z + 3) mod 7" .
  show "0 \<le> WeekDay z" "WeekDay z \<le> 6" using w by (simp_all add: WeekDay_def w_def)
  have 2: "(if w = 0 then 6 else w - 1) = (w + 6) mod 7"
  proof (cases "w = 0")
    case True
    then show ?thesis by simp
  next
    case False
    then have "w + 6 = 7 * 1 + (w - 1)" "0 \<le> w - 1" "w - 1 < 7" using w by simp_all
    then have "(w + 6) mod 7 = w - 1" by (rule int_mod_pos_eq)
    then show ?thesis using False by simp
  qed
  show 3: "weekdayIndexMonFirst (WeekDay z) = (WeekDay z + 6) mod 7"
    unfolding weekdayIndexMonFirst_def WeekDay_def w_def[symmetric] by (rule 2)
  show "weekdayIndexMonFirst (WeekDay z) = (z + 3) mod 7"
    using 3 e by (simp add: WeekDay_def w_def)
qed

lemma startOfMonth_fields:
  assumes "plainDate base"
  shows "getFullYear (startOfMonth base) = getFullYear base"
    "getMonth (startOfMonth base) = getMonth base"
    "getDate (startOfMonth base) = 1"
    "Day (startOfMonth base) = MakeDay (getFullYear base) (getMonth base) 1"
proof -
  have p: "\<not> legacyYear (getFullYear base)" using assms by (simp add: plainDate_def)
  note f = newDateYMD_first[OF p field_ranges(1,2)[of base]]
  show "getFullYear (startOfMonth base) = getFullYear base"
    "getMonth (startOfMonth base) = getMonth base"
    "getDate (startOfMonth base) = 1"
    "Day (startOfMonth base) = MakeDay (getFullYear base) (getMonth base) 1"
    unfolding startOfMonth_def by (rule f)+
qed

lemma endOfMonth_date:
  assumes "plainDate base"
  shows "getDate (endOfMonth base) = DaysInMonth (getFullYear base) (getMonth base)"
proof -
  have p: "\<not> legacyYear (getFullYear base)" using assms by (simp add: plainDate_def)
  show ?thesis unfolding endOfMonth_def
    by (rule newDateYMD_last(4)[OF p field_ranges(1,2)[of base]])
qed

lemma upto_nonempty: "(1::int) \<le> n \<Longrightarrow> [1..n] = 1 # [2..n]"
  by (simp add: upto_rec1)

text \<open>
  C6. The grid built for a month anchor is \<open>off\<close> empty cells, then the days
  \<open>1, 2, ..., n\<close> in order, then fewer than 7 empty cells, where \<open>n\<close> is the number of
  days of the anchor's month and \<open>off\<close> is the Monday-first weekday index of the first
  of that month (JavaScript's day number 1, Monday, gives 0, and 0, Sunday, gives 6).
  So every cell is empty or a day between 1 and \<open>n\<close>, the non-empty cells are exactly
  \<open>1..n\<close>, the leading empty cells are \<open>off\<close> many, and the length is a multiple of 7.
\<close>

theorem day_grid_shape:
  assumes "plainDate base"
  shows "\<exists>off n k. buildDaysGrid base = replicate off None @ map Some [1..n] @ replicate k None
       \<and> n = DaysInMonth (getFullYear base) (getMonth base)
       \<and> int off = weekdayIndexMonFirst (getDay (startOfMonth base))
       \<and> int off = (getDay (startOfMonth base) + 6) mod 7
       \<and> 0 \<le> getDay (startOfMonth base) \<and> getDay (startOfMonth base) \<le> 6
       \<and> getDate (startOfMonth base) = 1
       \<and> getMonth (startOfMonth base) = getMonth base
       \<and> getFullYear (startOfMonth base) = getFullYear base
       \<and> k < 7
       \<and> length (takeWhile (\<lambda>c. c = None) (buildDaysGrid base)) = off
       \<and> filter (\<lambda>c. c \<noteq> None) (buildDaysGrid base) = map Some [1..n]
       \<and> length (buildDaysGrid base) mod 7 = 0"
proof -
  define z where "z = Day (startOfMonth base)"
  define off where "off = nat (weekdayIndexMonFirst (getDay (startOfMonth base)))"
  define n where "n = DaysInMonth (getFullYear base) (getMonth base)"
  define cells where "cells = replicate off (None :: int option) @ map Some [1..n]"
  define k where "k = (7 - length cells mod 7) mod 7"
  have wd: "getDay (startOfMonth base) = WeekDay z" by (simp add: getDay_def z_def)
  have offnn: "0 \<le> weekdayIndexMonFirst (getDay (startOfMonth base))"
    unfolding wd weekdayIndexMonFirst_WeekDay(1) by simp
  have off: "int off = weekdayIndexMonFirst (getDay (startOfMonth base))"
    using offnn by (simp add: off_def)
  have off2: "int off = (getDay (startOfMonth base) + 6) mod 7"
    unfolding off wd by (rule weekdayIndexMonFirst_WeekDay(2))
  have wr: "0 \<le> getDay (startOfMonth base)" "getDay (startOfMonth base) \<le> 6"
    unfolding wd by (rule weekdayIndexMonFirst_WeekDay(3,4))+
  have n1: "1 \<le> n" using DaysInMonth_ge(1)[of "getFullYear base" "getMonth base"]
    by (simp add: n_def)
  have "buildDaysGrid base = padToWeeks cells"
    by (simp add: buildDaysGrid_def Let_def endOfMonth_date[OF assms] off_def n_def cells_def)
  then have g: "buildDaysGrid base = replicate off None @ map Some [1..n] @ replicate k None"
    unfolding padToWeeks_eq k_def by (simp add: cells_def)
  have tw: "takeWhile (\<lambda>c. c = None) (buildDaysGrid base) = replicate off None"
    unfolding g upto_nonempty[OF n1] by (subst takeWhile_append2) auto
  have fl: "filter (\<lambda>c. c \<noteq> None) (buildDaysGrid base) = map Some [1..n]"
    unfolding g by (simp add: filter_map comp_def)
  have len: "length (buildDaysGrid base) mod 7 = 0"
    by (simp only: buildDaysGrid_def Let_def length_padToWeeks)
  have k7: "k < 7" by (simp add: k_def)
  have twl: "length (takeWhile (\<lambda>c. c = None) (buildDaysGrid base)) = off"
    unfolding tw by simp
  show ?thesis
    apply (rule exI[of _ off], rule exI[of _ n], rule exI[of _ k])
    apply (intro conjI)
    apply (rule g, rule n_def, rule off, rule off2, rule wr(1), rule wr(2))
    apply (rule startOfMonth_fields(3)[OF assms], rule startOfMonth_fields(2)[OF assms])
    apply (rule startOfMonth_fields(1)[OF assms], rule k7, rule twl, rule fl, rule len)
    done
qed

theorem day_grid_shape_witness:
  "plainDate (newDate 2024 1 10 9 7)
   \<and> (\<exists>k. buildDaysGrid (newDate 2024 1 10 9 7)
            = replicate 3 None @ map Some [1..29] @ replicate k None \<and> k < 7)
   \<and> length (buildDaysGrid (newDate 2024 1 10 9 7)) mod 7 = 0"
proof -
  have a: "plainDate (newDate 2024 1 10 9 7)" by code_simp
  have n: "DaysInMonth (getFullYear (newDate 2024 1 10 9 7)) (getMonth (newDate 2024 1 10 9 7)) = 29"
    by code_simp
  have w: "weekdayIndexMonFirst (getDay (startOfMonth (newDate 2024 1 10 9 7))) = 3"
    by code_simp
  from day_grid_shape[OF a] obtain off n k where
    g: "buildDaysGrid (newDate 2024 1 10 9 7)
          = replicate off None @ map Some [1..n] @ replicate k None
       \<and> n = DaysInMonth (getFullYear (newDate 2024 1 10 9 7)) (getMonth (newDate 2024 1 10 9 7))
       \<and> int off = weekdayIndexMonFirst (getDay (startOfMonth (newDate 2024 1 10 9 7)))
       \<and> int off = (getDay (startOfMonth (newDate 2024 1 10 9 7)) + 6) mod 7
       \<and> 0 \<le> getDay (startOfMonth (newDate 2024 1 10 9 7))
       \<and> getDay (startOfMonth (newDate 2024 1 10 9 7)) \<le> 6
       \<and> getDate (startOfMonth (newDate 2024 1 10 9 7)) = 1
       \<and> getMonth (startOfMonth (newDate 2024 1 10 9 7)) = getMonth (newDate 2024 1 10 9 7)
       \<and> getFullYear (startOfMonth (newDate 2024 1 10 9 7)) = getFullYear (newDate 2024 1 10 9 7)
       \<and> k < 7
       \<and> length (takeWhile (\<lambda>c. c = None) (buildDaysGrid (newDate 2024 1 10 9 7))) = off
       \<and> filter (\<lambda>c. c \<noteq> None) (buildDaysGrid (newDate 2024 1 10 9 7)) = map Some [1..n]
       \<and> length (buildDaysGrid (newDate 2024 1 10 9 7)) mod 7 = 0"
    by (elim exE) (rule that)
  have g1: "buildDaysGrid (newDate 2024 1 10 9 7)
          = replicate off None @ map Some [1..n] @ replicate k None"
    by (rule g[THEN conjunct1])
  have g2: "n = DaysInMonth (getFullYear (newDate 2024 1 10 9 7)) (getMonth (newDate 2024 1 10 9 7))"
    by (rule g[THEN conjunct2, THEN conjunct1])
  have g3: "int off = weekdayIndexMonFirst (getDay (startOfMonth (newDate 2024 1 10 9 7)))"
    by (rule g[THEN conjunct2, THEN conjunct2, THEN conjunct1])
  have g4: "k < 7" using g by blast
  have g5: "length (buildDaysGrid (newDate 2024 1 10 9 7)) mod 7 = 0" using g by blast
  have o: "off = 3" using g3 w by simp
  have n29: "n = 29" using g2 n by simp
  have "buildDaysGrid (newDate 2024 1 10 9 7)
          = replicate 3 None @ map Some [1..29] @ replicate k None \<and> k < 7"
    using g1 g4 unfolding o n29 by simp
  then show ?thesis using a g5 by blast
qed

section \<open>Opening the picker\<close>

lemma floor_step:
  fixes st mi :: int
  assumes "1 \<le> st" "0 \<le> mi" "mi \<le> 59"
  shows "0 \<le> (mi div st) * st" "(mi div st) * st \<le> mi" "mi < (mi div st) * st + st"
    "(mi div st) * st \<le> 59" "((mi div st) * st) mod st = 0"
proof -
  have p: "0 < st" using assms by simp
  show 2: "(mi div st) * st \<le> mi" using div_bounds(1)[OF p, of mi] by (simp add: mult.commute)
  show "mi < (mi div st) * st + st" using div_bounds(2)[OF p, of mi] by (simp add: mult.commute)
  have "0 \<le> mi div st" using assms p by (simp add: pos_imp_zdiv_nonneg_iff)
  then show "0 \<le> (mi div st) * st" using p by simp
  show "(mi div st) * st \<le> 59" using 2 assms by simp
  show "((mi div st) * st) mod st = 0" by simp
qed

lemma normalized_fields:
  assumes "1 \<le> minuteStep P" "plainDate base"
  shows "getFullYear (normalized P base) = getFullYear base"
    "getMonth (normalized P base) = getMonth base"
    "getDate (normalized P base) = getDate base"
    "getHours (normalized P base) = getHours base"
    "getMinutes (normalized P base) = (getMinutes base div minuteStep P) * minuteStep P"
    "getSeconds (normalized P base) = 0"
    "getMilliseconds (normalized P base) = 0"
proof -
  have p: "\<not> legacyYear (getFullYear base)" using assms(2) by (simp add: plainDate_def)
  note r = field_ranges[of base]
  note fl = floor_step[OF assms(1) r(8,9)]
  note f = fields_of_newDate[OF p r(1,2,3,5,6,7) fl(1,4)]
  show "getFullYear (normalized P base) = getFullYear base"
    "getMonth (normalized P base) = getMonth base"
    "getDate (normalized P base) = getDate base"
    "getHours (normalized P base) = getHours base"
    "getMinutes (normalized P base) = (getMinutes base div minuteStep P) * minuteStep P"
    "getSeconds (normalized P base) = 0"
    "getMilliseconds (normalized P base) = 0"
    unfolding normalized_def by (rule f)+
qed

lemma selected_isOpen_update: "selected (s\<lparr>isOpen := b\<rparr>) = selected s"
  by (simp add: selected_def)

lemma step_open:
  assumes "\<not> isOpen s" "\<not> disabled P"
  shows "step P now (OpenChange True) s =
     Inr (s\<lparr>isOpen := True,
            displayDate := startOfMonth (seedBase P now (selected s)),
            draft := normalized P (seedBase P now (selected s)),
            pickedDate := (selected s \<noteq> None), pickedTime := (selected s \<noteq> None),
            hourTouched := (selected s \<noteq> None), minuteTouched := (selected s \<noteq> None)\<rparr>)"
  using assms
  by (simp add: step_def enabled_def handle_def onOpenChange_def afterRender_def openEffect_def
      selected_isOpen_update Let_def)

text \<open>
  C9. Opening the picker (the popover reports \<open>open = true\<close>, then the open effect
  runs) seeds the draft from \<open>base\<close>: the committed value when there is one, else the
  later of the clock and \<open>minDate\<close> when there is a minimum, else the clock. The draft
  has the year, month, day and hour of \<open>base\<close> and its minute floored to a multiple of
  the step (seconds and milliseconds zero); the displayed month is the month of \<open>base\<close>;
  and the four chosen-flags (\<open>picked.date\<close>, \<open>picked.time\<close>, \<open>hourTouched\<close>,
  \<open>minuteTouched\<close>) are true iff there was a committed value.
\<close>

theorem open_seeds_draft:
  assumes "\<not> isOpen s" "\<not> disabled P" "1 \<le> minuteStep P"
    "plainDate (seedBase P now (selected s))"
  shows "\<exists>s' base has.
       step P now (OpenChange True) s = Inr s'
     \<and> base = (case selected s of
                 Some v \<Rightarrow> v
               | None \<Rightarrow> (case minDate P of Some mn \<Rightarrow> max now mn | None \<Rightarrow> now))
     \<and> has = (selected s \<noteq> None)
     \<and> s' = s\<lparr>isOpen := True, displayDate := startOfMonth base, draft := normalized P base,
                pickedDate := has, pickedTime := has, hourTouched := has, minuteTouched := has\<rparr>
     \<and> getFullYear (draft s') = getFullYear base \<and> getMonth (draft s') = getMonth base
     \<and> getDate (draft s') = getDate base \<and> getHours (draft s') = getHours base
     \<and> getMinutes (draft s') = (getMinutes base div minuteStep P) * minuteStep P
     \<and> getMinutes (draft s') mod minuteStep P = 0
     \<and> getMinutes (draft s') \<le> getMinutes base
     \<and> getMinutes base < getMinutes (draft s') + minuteStep P
     \<and> getSeconds (draft s') = 0 \<and> getMilliseconds (draft s') = 0"
proof -
  define base where "base = seedBase P now (selected s)"
  define has where "has = (selected s \<noteq> None)"
  define s' where "s' = s\<lparr>isOpen := True, displayDate := startOfMonth base,
      draft := normalized P base,
      pickedDate := has, pickedTime := has, hourTouched := has, minuteTouched := has\<rparr>"
  have b: "base = (case selected s of
                 Some v \<Rightarrow> v
               | None \<Rightarrow> (case minDate P of Some mn \<Rightarrow> max now mn | None \<Rightarrow> now))"
    by (simp add: base_def seedBase_def getTime_def split: option.splits)
  have st: "step P now (OpenChange True) s = Inr s'"
    unfolding s'_def base_def has_def by (rule step_open[OF assms(1,2)])
  have d: "draft s' = normalized P base" by (simp add: s'_def)
  have pb: "plainDate base" using assms(4) by (simp add: base_def)
  note nf = normalized_fields[OF assms(3) pb]
  note fl = floor_step[OF assms(3) field_ranges(8,9)[of base]]
  show ?thesis
    apply (rule exI[of _ s'], rule exI[of _ base], rule exI[of _ has])
    apply (intro conjI)
    apply (rule st, rule b, rule has_def, rule s'_def)
    apply (simp_all only: d nf fl)
    done
qed

theorem open_seeds_draft_witness:
  "\<not> isOpen exampleClosed \<and> \<not> disabled exampleProps \<and> 1 \<le> minuteStep exampleProps
   \<and> plainDate (seedBase exampleProps exampleNow (selected exampleClosed))
   \<and> (\<exists>s'. step exampleProps exampleNow (OpenChange True) exampleClosed = Inr s'
          \<and> draft s' = newDate 2024 0 10 9 0
          \<and> getMinutes (draft s') = (7 div 15) * 15
          \<and> pickedDate s' = False \<and> minuteTouched s' = False)"
proof -
  have a: "\<not> isOpen exampleClosed" by code_simp
  have b: "\<not> disabled exampleProps" by code_simp
  have c: "1 \<le> minuteStep exampleProps" by code_simp
  have d: "plainDate (seedBase exampleProps exampleNow (selected exampleClosed))" by code_simp
  have e: "normalized exampleProps (max exampleNow (newDate 2024 0 10 9 7)) = newDate 2024 0 10 9 0"
    by code_simp
  have f: "getMinutes (max exampleNow (newDate 2024 0 10 9 7)) = 7" by code_simp
  have g: "selected exampleClosed = None" "minDate exampleProps = Some (newDate 2024 0 10 9 7)"
    "minuteStep exampleProps = 15"
    by code_simp+
  from open_seeds_draft[OF a b c d] obtain s' base has where
    t: "step exampleProps exampleNow (OpenChange True) exampleClosed = Inr s'
     \<and> base = (case selected exampleClosed of
                 Some v \<Rightarrow> v
               | None \<Rightarrow> (case minDate exampleProps of
                            Some mn \<Rightarrow> max exampleNow mn | None \<Rightarrow> exampleNow))
     \<and> has = (selected exampleClosed \<noteq> None)
     \<and> s' = exampleClosed\<lparr>isOpen := True, displayDate := startOfMonth base,
                draft := normalized exampleProps base,
                pickedDate := has, pickedTime := has, hourTouched := has, minuteTouched := has\<rparr>
     \<and> getFullYear (draft s') = getFullYear base \<and> getMonth (draft s') = getMonth base
     \<and> getDate (draft s') = getDate base \<and> getHours (draft s') = getHours base
     \<and> getMinutes (draft s') = (getMinutes base div minuteStep exampleProps) * minuteStep exampleProps
     \<and> getMinutes (draft s') mod minuteStep exampleProps = 0
     \<and> getMinutes (draft s') \<le> getMinutes base
     \<and> getMinutes base < getMinutes (draft s') + minuteStep exampleProps
     \<and> getSeconds (draft s') = 0 \<and> getMilliseconds (draft s') = 0"
    by (elim exE) (rule that)
  have t1: "step exampleProps exampleNow (OpenChange True) exampleClosed = Inr s'"
    by (rule t[THEN conjunct1])
  have t2: "base = max exampleNow (newDate 2024 0 10 9 7)"
    using t[THEN conjunct2, THEN conjunct1] by (simp add: g)
  have t3: "has = False"
    using t[THEN conjunct2, THEN conjunct2, THEN conjunct1] by (simp add: g)
  have t4: "s' = exampleClosed\<lparr>isOpen := True, displayDate := startOfMonth base,
                draft := normalized exampleProps base,
                pickedDate := has, pickedTime := has, hourTouched := has, minuteTouched := has\<rparr>"
    by (rule t[THEN conjunct2, THEN conjunct2, THEN conjunct2, THEN conjunct1])
  have t5: "getMinutes (draft s') = (getMinutes base div minuteStep exampleProps) * minuteStep exampleProps"
    using t by blast
  have 1: "draft s' = newDate 2024 0 10 9 0" unfolding t4 t2 by (simp add: e)
  have 2: "getMinutes (draft s') = (7 div 15) * 15" using t5 unfolding t2 f g(3) .
  have 3: "pickedDate s' = False" "minuteTouched s' = False" unfolding t4 t3 by simp_all
  show ?thesis using a b c d t1 1 2 3 by blast
qed

section \<open>Closing with an incomplete selection\<close>






section \<open>The minute floor on the day of the minimum\<close>

lemma ceilDiv_bounds:
  fixes m st :: int
  assumes "0 < st"
  shows "m \<le> ceilDiv m st * st" "ceilDiv m st * st < m + st"
  using div_bounds[OF assms, of "- m"] by (simp_all add: ceilDiv_def algebra_simps)

lemma ceilDiv_least:
  fixes m st k :: int
  assumes "0 < st" "m \<le> k * st"
  shows "ceilDiv m st \<le> k"
proof (rule ccontr)
  assume "\<not> ceilDiv m st \<le> k"
  then have "k + 1 \<le> ceilDiv m st" by simp
  then have "(k + 1) * st \<le> ceilDiv m st * st" using assms(1) by (intro mult_right_mono) simp_all
  then show False using ceilDiv_bounds(2)[OF assms(1), of m] assms(2) by (simp add: algebra_simps)
qed


lemma roundUpToStep_bounds:
  fixes m st :: int
  assumes "1 \<le> st" "0 \<le> m" "m \<le> 59"
  shows "m \<le> roundUpToStep m st" "roundUpToStep m st \<le> 59"
  using ceilDiv_bounds(1)[of st m] assms by (simp_all add: roundUpToStep_def)

lemma late_floor_not_multiple:
  fixes m st :: int
  assumes "1 \<le> st" "m \<le> 59" "59 < ceilDiv m st * st"
  shows "59 mod st \<noteq> 0"
proof
  assume "59 mod st = 0"
  then have "59 = (59 div st) * st" by (metis mod_eq_0_iff_dvd dvd_div_mult_self)
  then have "m \<le> (59 div st) * st" using assms(2) by simp
  then have "ceilDiv m st \<le> 59 div st" using assms(1) by (intro ceilDiv_least) simp_all
  then have "ceilDiv m st * st \<le> (59 div st) * st" using assms(1) by (intro mult_right_mono) simp_all
  then show False using assms(3) \<open>59 = (59 div st) * st\<close> by simp
qed

lemma stepGrid_iff:
  "g \<in> set (stepGrid st) \<longleftrightarrow> (\<exists>i. 0 \<le> i \<and> i \<le> 59 div st \<and> g = i * st)"
  by (auto simp: stepGrid_def)

lemma stepGrid_range:
  fixes st :: int
  assumes "1 \<le> st" "g \<in> set (stepGrid st)"
  shows "0 \<le> g" "g \<le> 59"
proof -
  from assms(2) obtain i where i: "0 \<le> i" "i \<le> 59 div st" "g = i * st"
    unfolding stepGrid_iff by blast
  show "0 \<le> g" using i assms(1) by simp
  have "i * st \<le> (59 div st) * st" using i(2) assms(1) by (intro mult_right_mono) simp_all
  also have "\<dots> \<le> 59" using div_bounds(1)[of st 59] assms(1) by (simp add: mult.commute)
  finally show "g \<le> 59" using i(3) by simp
qed

lemma minuteOptions_iff:
  "g \<in> set (minuteOptions P) \<longleftrightarrow>
     (\<exists>i. 0 \<le> i \<and> i < 60 div minuteStep P \<and> g = i * minuteStep P)"
proof
  assume "g \<in> set (minuteOptions P)"
  then obtain k where "k < nat (60 div minuteStep P)" "g = int k * minuteStep P"
    by (auto simp: minuteOptions_def range_def)
  then show "\<exists>i. 0 \<le> i \<and> i < 60 div minuteStep P \<and> g = i * minuteStep P"
    by (intro exI[of _ "int k"]) auto
next
  assume "\<exists>i. 0 \<le> i \<and> i < 60 div minuteStep P \<and> g = i * minuteStep P"
  then obtain i where i: "0 \<le> i" "i < 60 div minuteStep P" "g = i * minuteStep P" by blast
  then have "nat i < nat (60 div minuteStep P)" "g = int (nat i) * minuteStep P" by simp_all
  then show "g \<in> set (minuteOptions P)"
    unfolding minuteOptions_def range_def by (auto simp del: int_nat_eq intro!: image_eqI[of _ _ "nat i"])
qed

lemma minuteOptions_range:
  assumes "1 \<le> minuteStep P" "g \<in> set (minuteOptions P)"
  shows "0 \<le> g" "g \<le> 59"
proof -
  from assms(2) obtain i where i: "0 \<le> i" "i < 60 div minuteStep P" "g = i * minuteStep P"
    unfolding minuteOptions_iff by blast
  show "0 \<le> g" using i assms(1) by simp
  have "(i + 1) * minuteStep P \<le> (60 div minuteStep P) * minuteStep P"
    using i(2) assms(1) by (intro mult_right_mono) simp_all
  also have "\<dots> \<le> 60" using div_bounds(1)[of "minuteStep P" 60] assms(1) by (simp add: mult.commute)
  finally show "g \<le> 59" using i(3) assms(1) by (simp add: algebra_simps)
qed

lemma late_floor_grid_below:
  fixes m st :: int
  assumes "1 \<le> st" "m \<le> 59" "59 < ceilDiv m st * st" "0 \<le> g" "g \<le> 59" "g mod st = 0"
  shows "g < 59"
proof -
  have "g \<noteq> 59" using late_floor_not_multiple[OF assms(1-3)] assms(6) by auto
  then show ?thesis using assms(5) by simp
qed

lemma minuteLoopFrom_all_below:
  "(\<And>i. i \<in> set is \<Longrightarrow> i * minuteStep P < aligned) \<Longrightarrow> minuteLoopFrom P s hour aligned is"
  by (induction "is") (simp_all add: Let_def)

lemma lower_bound_some:
  assumes "minDate P = Some mn" "isSameDay (draft s) mn"
  shows "getLowerBoundForDraft P s =
     Some \<lparr>minHour = getHours mn,
           minMinuteStepAligned = roundUpToStep (getMinutes mn) (minuteStep P)\<rparr>"
  using assms by (simp add: getLowerBoundForDraft_def)

lemma range_le_59:
  fixes P :: Props
  assumes "1 \<le> minuteStep P" "i \<in> set (range (60 div minuteStep P))"
  shows "0 \<le> i * minuteStep P" "i * minuteStep P \<le> 59" "(i * minuteStep P) mod minuteStep P = 0"
proof -
  have "i * minuteStep P \<in> set (minuteOptions P)"
    unfolding minuteOptions_def set_map using assms(2) by (rule imageI)
  from minuteOptions_range[OF assms(1) this]
  show "0 \<le> i * minuteStep P" "i * minuteStep P \<le> 59" .
  show "(i * minuteStep P) mod minuteStep P = 0" by simp
qed

lemma hour_disabled_late:
  assumes "1 \<le> minuteStep P" "minDate P = Some mn" "isSameDay (draft s) mn"
    "59 < ceilDiv (getMinutes mn) (minuteStep P) * minuteStep P"
  shows "roundUpToStep (getMinutes mn) (minuteStep P) = 59"
    "isHourCompletelyDisabled P s (getHours mn)"
proof -
  show r: "roundUpToStep (getMinutes mn) (minuteStep P) = 59"
    using assms(4) by (simp add: roundUpToStep_def)
  have "minuteLoopFrom P s (getHours mn) 59 (range (60 div minuteStep P))"
  proof (rule minuteLoopFrom_all_below)
    fix i assume i: "i \<in> set (range (60 div minuteStep P))"
    note b = range_le_59[OF assms(1) i]
    show "i * minuteStep P < 59"
      by (rule late_floor_grid_below[OF assms(1) field_ranges(9)[of mn] assms(4) b])
  qed
  then show "isHourCompletelyDisabled P s (getHours mn)"
    by (simp add: isHourCompletelyDisabled_def lower_bound_some[OF assms(2,3)] r)
qed

lemma minute_disabled_below:
  assumes "minDate P = Some mn" "isSameDay (draft s) mn" "getHours (draft s) = getHours mn"
    "g < roundUpToStep (getMinutes mn) (minuteStep P)"
  shows "isMinuteDisabled P s g"
  using assms(3,4) by (simp add: isMinuteDisabled_def lower_bound_some[OF assms(1,2)])





lemma leastSelectable_none:
  assumes "\<And>y. y \<in> set (stepGrid (minuteStep P)) \<Longrightarrow> isMinuteDisabled P s y"
  shows "leastSelectable P s = None"
proof -
  have "filter (\<lambda>m. \<not> isMinuteDisabled P s m) (stepGrid (minuteStep P)) = []"
    using assms by (simp add: filter_empty_conv)
  then show ?thesis by (simp add: leastSelectable_def selectableMinutes_def)
qed


text \<open>
  C10. For a minute \<open>m\<close> from 0 to 59 and a step of at least 1, \<open>roundUpToStep\<close>
  returns the smaller of 59 and \<open>ceil(m / step) * step\<close>, the least multiple of the step
  that is not below \<open>m\<close>; the result is at least \<open>m\<close> and at most 59. When that
  multiple is above 59 for the minute of \<open>minDate\<close> and the draft is on the day of
  \<open>minDate\<close>, the aligned floor is 59, which is not a multiple of the step, every minute
  of the step grid (and every minute the picker renders) is below it, the hour of
  \<open>minDate\<close> is reported completely disabled, and with the draft in that hour every
  grid minute is disabled.
\<close>

theorem lower_bound_rounding:
  assumes "1 \<le> minuteStep P" "minDate P = Some mn" "isSameDay (draft s) mn"
  shows "(\<forall>m st. 1 \<le> st \<and> 0 \<le> m \<and> m \<le> 59 \<longrightarrow>
           roundUpToStep m st = min 59 (ceilDiv m st * st)
           \<and> m \<le> ceilDiv m st * st \<and> ceilDiv m st * st < m + st
           \<and> (ceilDiv m st * st) mod st = 0
           \<and> m \<le> roundUpToStep m st \<and> roundUpToStep m st \<le> 59)
     \<and> (59 < ceilDiv (getMinutes mn) (minuteStep P) * minuteStep P \<longrightarrow>
           getLowerBoundForDraft P s = Some \<lparr>minHour = getHours mn, minMinuteStepAligned = 59\<rparr>
           \<and> 59 mod minuteStep P \<noteq> 0
           \<and> (\<forall>g \<in> set (stepGrid (minuteStep P)). g < 59)
           \<and> (\<forall>g \<in> set (minuteOptions P). g < 59)
           \<and> isHourCompletelyDisabled P s (getHours mn)
           \<and> (getHours (draft s) = getHours mn \<longrightarrow>
                (\<forall>g \<in> set (stepGrid (minuteStep P)). isMinuteDisabled P s g)
                \<and> (\<forall>g \<in> set (minuteOptions P). isMinuteDisabled P s g)
                \<and> leastSelectable P s = None))"
proof (intro conjI allI impI ballI)
  fix m st :: int
  assume a: "1 \<le> st \<and> 0 \<le> m \<and> m \<le> 59"
  then have p: "0 < st" by simp
  show "roundUpToStep m st = min 59 (ceilDiv m st * st)" by (simp add: roundUpToStep_def)
  show "m \<le> ceilDiv m st * st" "ceilDiv m st * st < m + st"
    by (rule ceilDiv_bounds[OF p])+
  show "(ceilDiv m st * st) mod st = 0" by simp
  show "m \<le> roundUpToStep m st" "roundUpToStep m st \<le> 59"
    using roundUpToStep_bounds[of st m] a by simp_all
next
  assume late: "59 < ceilDiv (getMinutes mn) (minuteStep P) * minuteStep P"
  note h = hour_disabled_late[OF assms late]
  show "getLowerBoundForDraft P s = Some \<lparr>minHour = getHours mn, minMinuteStepAligned = 59\<rparr>"
    by (simp add: lower_bound_some[OF assms(2,3)] h(1))
  show "59 mod minuteStep P \<noteq> 0"
    by (rule late_floor_not_multiple[OF assms(1) field_ranges(9)[of mn] late])
  show "isHourCompletelyDisabled P s (getHours mn)" by (rule h(2))
  {
    fix g assume g: "g \<in> set (stepGrid (minuteStep P))"
    then have "g mod minuteStep P = 0" by (auto simp: stepGrid_def)
    with stepGrid_range[OF assms(1) g]
    show "g < 59"
      by (intro late_floor_grid_below[OF assms(1) field_ranges(9)[of mn] late])
  } note sg = this
  {
    fix g assume g: "g \<in> set (minuteOptions P)"
    then have "g mod minuteStep P = 0" by (auto simp: minuteOptions_def)
    with minuteOptions_range[OF assms(1) g]
    show "g < 59"
      by (intro late_floor_grid_below[OF assms(1) field_ranges(9)[of mn] late])
  } note mo = this
  assume hh: "getHours (draft s) = getHours mn"
  {
    fix g assume "g \<in> set (stepGrid (minuteStep P))"
    then show "isMinuteDisabled P s g"
      using sg by (intro minute_disabled_below[OF assms(2,3) hh]) (simp add: h(1))
  } note d1 = this
  {
    fix g assume "g \<in> set (minuteOptions P)"
    then show "isMinuteDisabled P s g"
      using mo by (intro minute_disabled_below[OF assms(2,3) hh]) (simp add: h(1))
  }
  show "leastSelectable P s = None" by (rule leastSelectable_none) (rule d1)
qed

theorem lower_bound_rounding_witness:
  "1 \<le> minuteStep lateMinProps \<and> minDate lateMinProps = Some (newDate 2024 0 10 9 58)
   \<and> isSameDay (draft lateMinDraft) (newDate 2024 0 10 9 58)
   \<and> 59 < ceilDiv (getMinutes (newDate 2024 0 10 9 58)) (minuteStep lateMinProps)
            * minuteStep lateMinProps
   \<and> getHours (draft lateMinDraft) = getHours (newDate 2024 0 10 9 58)
   \<and> roundUpToStep 58 5 = min 59 (ceilDiv 58 5 * 5)
   \<and> roundUpToStep 58 5 \<le> 59
   \<and> isHourCompletelyDisabled lateMinProps lateMinDraft (getHours (newDate 2024 0 10 9 58))
   \<and> leastSelectable lateMinProps lateMinDraft = None"
proof -
  have a: "1 \<le> minuteStep lateMinProps" "minDate lateMinProps = Some (newDate 2024 0 10 9 58)"
    "isSameDay (draft lateMinDraft) (newDate 2024 0 10 9 58)"
    by code_simp+
  have b: "59 < ceilDiv (getMinutes (newDate 2024 0 10 9 58)) (minuteStep lateMinProps)
            * minuteStep lateMinProps" by code_simp
  have c: "getHours (draft lateMinDraft) = getHours (newDate 2024 0 10 9 58)" by code_simp
  note t = lower_bound_rounding[OF a]
  have m: "(1::int) \<le> 5 \<and> (0::int) \<le> 58 \<and> (58::int) \<le> 59" by simp
  from t m have 1: "roundUpToStep 58 5 = min 59 (ceilDiv 58 5 * 5)" "roundUpToStep 58 5 \<le> 59"
    by blast+
  from t b have 2: "isHourCompletelyDisabled lateMinProps lateMinDraft
      (getHours (newDate 2024 0 10 9 58))" by blast
  from t b c have 3: "leastSelectable lateMinProps lateMinDraft = None" by blast
  show ?thesis using a b c 1 2 3 by blast
qed




end
